theory Spec2Isabelle
  imports Complex_Main "HOL-Library.Sublist"
begin

section \<open>Strings as the scripts use them\<close>

text \<open>
  The Apps Script sources work on JavaScript strings.  The embedding uses \<open>string\<close>
  and covers the ASCII range: \<open>\s\<close> is the six ASCII white-space characters,
  \<open>\d\<close> the ten digits, \<open>\w\<close> letters, digits and the underscore, and
  \<open>toUpperCase\<close>/\<open>toLowerCase\<close> act on the 26 letters.  Functions keep
  their names from the scripts, without the trailing underscore of the private ones
  (the script's \<open>normalizeWsV4_\<close> is \<open>normalizeWsV4\<close> here).
\<close>

definition isSpace :: "char \<Rightarrow> bool" where
  "isSpace c = (c \<in> set [CHR '' '', CHR 0x09, CHR 0x0A, CHR 0x0B, CHR 0x0C, CHR 0x0D])"

definition isDigit :: "char \<Rightarrow> bool" where
  "isDigit c = (c \<in> set ''0123456789'')"

definition lowerLetters :: string where
  "lowerLetters = ''abcdefghijklmnopqrstuvwxyz''"

definition upperLetters :: string where
  "upperLetters = ''ABCDEFGHIJKLMNOPQRSTUVWXYZ''"

definition isWordChar :: "char \<Rightarrow> bool" where
  "isWordChar c = (c \<in> set lowerLetters \<or> c \<in> set upperLetters \<or> isDigit c \<or> c = CHR ''_'')"

definition toUpperChar :: "char \<Rightarrow> char" where
  "toUpperChar c = (case map_of (zip lowerLetters upperLetters) c of Some u \<Rightarrow> u | None \<Rightarrow> c)"

definition toLowerChar :: "char \<Rightarrow> char" where
  "toLowerChar c = (case map_of (zip upperLetters lowerLetters) c of Some l \<Rightarrow> l | None \<Rightarrow> c)"

definition toUpperCase :: "string \<Rightarrow> string" where
  "toUpperCase s = map toUpperChar s"

definition toLowerCase :: "string \<Rightarrow> string" where
  "toLowerCase s = map toLowerChar s"

text \<open>\<open>String.prototype.trim\<close>.\<close>

definition trim :: "string \<Rightarrow> string" where
  "trim s = rev (dropWhile isSpace (rev (dropWhile isSpace s)))"

text \<open>
  \<open>normalizeWsV4(s) = String(s || '').replace(/\s+/g, ' ').trim()\<close>:
  every run of white space becomes one blank, then the ends are trimmed.  The flag
  of \<open>collapseWs\<close> says that the previous character was white space, whose
  blank has been written already.
\<close>

fun collapseWs :: "bool \<Rightarrow> string \<Rightarrow> string" where
  "collapseWs inRun [] = []"
| "collapseWs inRun (c # cs) =
     (if isSpace c then (if inRun then collapseWs True cs else CHR '' '' # collapseWs True cs)
      else c # collapseWs False cs)"

definition normalizeWsV4 :: "string \<Rightarrow> string" where
  "normalizeWsV4 s = trim (collapseWs False s)"

section \<open>Clock times\<close>

text \<open>
  The pattern \<open>^(\d{1,2})(?::(\d{2}))?\s*(AM|PM)?$\<close>, shared by
  \<open>normalizeTimeV4\<close> (on an upper-cased string) and \<open>parseTimeMinsV4\<close>
  (with the \<open>i\<close> flag).  The result holds the three groups; the third one is
  the matched text, empty when the group did not take part.  A run of three or more
  leading digits cannot match, and a colon is only accepted in front of two digits.
\<close>

definition matchClock :: "bool \<Rightarrow> string \<Rightarrow> (string \<times> string option \<times> string) option" where
  "matchClock ci s =
     (let ds = takeWhile isDigit s; r1 = dropWhile isDigit s in
      if length ds < 1 \<or> 2 < length ds then None
      else
        let (mm, r2) =
              (case r1 of
                 c # a # b # r \<Rightarrow>
                   if c = CHR '':'' \<and> isDigit a \<and> isDigit b then (Some [a, b], r) else (None, r1)
               | _ \<Rightarrow> (None, r1));
            r3 = dropWhile isSpace r2;
            ap = (if ci then toUpperCase r3 else r3)
        in if r3 = [] \<or> ap = ''AM'' \<or> ap = ''PM'' then Some (ds, mm, r3) else None)"

text \<open>\<open>parseInt(s, 10)\<close> on a string of decimal digits.\<close>

definition digitVal :: "char \<Rightarrow> nat" where
  "digitVal c = (case map_of (zip ''0123456789'' [0, 1, 2, 3, 4, 5, 6, 7, 8, 9]) c of
                   Some d \<Rightarrow> d | None \<Rightarrow> 0)"

definition parseInt10 :: "string \<Rightarrow> nat" where
  "parseInt10 s = foldl (\<lambda>n c. 10 * n + digitVal c) 0 s"

text \<open>
  \<open>parseTimeMinsV4\<close>: minutes past midnight, \<open>None\<close> for the source's
  \<open>null\<close>.  Both final returns of the source compute \<open>h * 60 + min\<close>.
\<close>

definition parseTimeMinsV4 :: "string \<Rightarrow> nat option" where
  "parseTimeMinsV4 s =
     (case matchClock True (trim s) of
        None \<Rightarrow> None
      | Some (g1, g2, g3) \<Rightarrow>
          (let h0 = parseInt10 g1;
               mins = parseInt10 (case g2 of Some m \<Rightarrow> m | None \<Rightarrow> ''0'');
               ap = toUpperCase g3;
               h1 = (if ap = ''PM'' \<and> h0 < 12 then h0 + 12 else h0);
               h = (if ap = ''AM'' \<and> h1 = 12 then 0 else h1)
           in Some (h * 60 + mins)))"

text \<open>
  \<open>normalizeTimeV4\<close>: a string that is not a clock time is returned upper-cased
  with its white space normalised.
\<close>

definition normalizeTimeV4 :: "string \<Rightarrow> string" where
  "normalizeTimeV4 t =
     (let s = toUpperCase (normalizeWsV4 t) in
      if s = [] then []
      else case matchClock False s of
             None \<Rightarrow> s
           | Some (g1, g2, g3) \<Rightarrow>
               trim (g1 @ '':'' @ (case g2 of Some m \<Rightarrow> m | None \<Rightarrow> ''00'')
                     @ (if g3 \<noteq> [] then '' '' @ g3 else [])))"

section \<open>Routes and stops\<close>

record Student =
  name :: string
  contactName :: string
  phoneNumber :: string
  otherEquipment :: string

text \<open>
  A stop as extracted (only \<open>time\<close>, \<open>location\<close>, \<open>students\<close> are read) and as
  published (the geocoding step fills the last three fields).  A missing string
  property is the empty string: the sources read every property through \<open>x || ''\<close>.
\<close>

record Stop =
  time :: string
  location :: string
  students :: "Student list"
  latitude :: "real option"
  longitude :: "real option"
  geocodeError :: "string option"

record Route =
  busNumber :: string
  schoolName :: string
  stops :: "Stop list"

section \<open>Period classification\<close>

text \<open>
  \<open>/\bW\b/.test(up)\<close> for a keyword \<open>W\<close> made of word characters: some
  occurrence of \<open>W\<close> has no word character directly before or after it.
  \<open>prev\<close> tells whether the character before the current position is a word
  character.
\<close>

fun testWord :: "string \<Rightarrow> bool \<Rightarrow> string \<Rightarrow> bool" where
  "testWord w prev [] = False"
| "testWord w prev (c # cs) =
     ((\<not> prev \<and> prefix w (c # cs) \<and>
        (case drop (length w) (c # cs) of [] \<Rightarrow> True | d # _ \<Rightarrow> \<not> isWordChar d))
      \<or> testWord w (isWordChar c) cs)"

text \<open>
  What \<open>/\bW\b/\<close> means, in words: the text is some \<open>pre\<close>, then \<open>W\<close>, then
  some \<open>post\<close>, where \<open>pre\<close> does not end and \<open>post\<close> does not begin with a
  word character.  \<open>testWord\<close> is compared with this below.
\<close>

definition hasWholeWord :: "string \<Rightarrow> string \<Rightarrow> bool" where
  "hasWholeWord w s =
     (\<exists>pre post. s = pre @ w @ post \<and> (pre = [] \<or> \<not> isWordChar (last pre)) \<and>
        (post = [] \<or> \<not> isWordChar (hd post)))"

text \<open>The alternatives of \<open>MID[-\s]?DAY\<close>.\<close>

definition midDayWords :: "string list" where
  "midDayWords =
     ''MIDDAY'' # ''MID-DAY'' #
     map (\<lambda>c. ''MID'' @ [c] @ ''DAY'') [CHR '' '', CHR 0x09, CHR 0x0A, CHR 0x0B, CHR 0x0C, CHR 0x0D]"

text \<open>The last four statements of \<open>canonicalPeriodV4\<close>: the keyword scan.\<close>

definition keywordPeriod :: "string \<Rightarrow> string" where
  "keywordPeriod school =
     (let up = toUpperCase school in
      if testWord ''AM'' False up then ''AM''
      else if testWord ''PM'' False up then ''PM''
      else if (\<exists>w \<in> set midDayWords. testWord w False up) then ''Mid-day''
      else ''Route'')"

text \<open>The loop of \<open>canonicalPeriodV4\<close> that keeps the least parsed time.\<close>

fun bestTime :: "nat option \<Rightarrow> Stop list \<Rightarrow> nat option" where
  "bestTime best [] = best"
| "bestTime best (s # ss) =
     (case parseTimeMinsV4 (time s) of
        None \<Rightarrow> bestTime best ss
      | Some t \<Rightarrow>
          (case best of
             None \<Rightarrow> bestTime (Some t) ss
           | Some b \<Rightarrow> if t < b then bestTime (Some t) ss else bestTime best ss))"

definition canonicalPeriodV4 :: "Stop list \<Rightarrow> string \<Rightarrow> string" where
  "canonicalPeriodV4 sts school =
     (case bestTime None sts of
        Some best \<Rightarrow>
          if 360 \<le> best \<and> best \<le> 570 then ''AM''
          else if 570 < best \<and> best < 840 then ''Mid-day''
          else if 840 \<le> best \<and> best \<le> 1080 then ''PM''
          else keywordPeriod school
      | None \<Rightarrow> keywordPeriod school)"

text \<open>The times of a stop list that parse, in order.\<close>

fun parsedTimes :: "Stop list \<Rightarrow> nat list" where
  "parsedTimes [] = []"
| "parsedTimes (s # ss) =
     (case parseTimeMinsV4 (time s) of None \<Rightarrow> parsedTimes ss | Some t \<Rightarrow> t # parsedTimes ss)"

definition mkStop :: "string \<Rightarrow> string \<Rightarrow> Stop" where
  "mkStop t l = \<lparr>time = t, location = l, students = [], latitude = None, longitude = None,
                 geocodeError = None\<rparr>"

section \<open>Cleaning a route\<close>

text \<open>\<open>normalizeBusV4\<close>: keep the digits (\<open>replace(/\D/g, '')\<close>), pad to three.\<close>

definition normalizeBusV4 :: "string \<Rightarrow> string" where
  "normalizeBusV4 v =
     (let d = filter isDigit v in
      if d = [] then []
      else if length d = 1 then ''00'' @ d
      else if length d = 2 then ''0'' @ d
      else d)"

text \<open>
  \<open>cleanLocationV4(s) = normalizeWsV4(s).replace(/^[-:,\s]+/, '').replace(/\s+[-:,\s]+$/, '')\<close>.
  The second pattern matches at the first white-space character that is followed only
  by characters of the class, and by at least one.
\<close>

definition isSepChar :: "char \<Rightarrow> bool" where
  "isSepChar c = (c \<in> set ''-:,'' \<or> isSpace c)"

fun stripTailSep :: "string \<Rightarrow> string" where
  "stripTailSep [] = []"
| "stripTailSep (c # cs) =
     (if isSpace c \<and> cs \<noteq> [] \<and> list_all isSepChar cs then [] else c # stripTailSep cs)"

definition cleanLocationV4 :: "string \<Rightarrow> string" where
  "cleanLocationV4 s = stripTailSep (dropWhile isSepChar (normalizeWsV4 s))"

text \<open>\<open>/^(LEFT|RIGHT|TURN|PROCEED|CONTINUE)\b/i.test(loc)\<close>.\<close>

definition isManeuver :: "string \<Rightarrow> bool" where
  "isManeuver loc =
     (\<exists>w \<in> set [''LEFT'', ''RIGHT'', ''TURN'', ''PROCEED'', ''CONTINUE''].
        prefix w (toUpperCase loc) \<and>
        (case drop (length w) loc of [] \<Rightarrow> True | d # _ \<Rightarrow> \<not> isWordChar d))"

text \<open>
  The loop of \<open>cleanRouteV4\<close> over the stops.  \<open>seen\<close> holds the keys of the
  object \<open>dedupe\<close>; a key contains \<open>|\<close>, so it is never a property that an empty
  object inherits.  A stop that is \<open>null\<close> is skipped like a stop without location.
\<close>

definition dedupeKey :: "string \<Rightarrow> string \<Rightarrow> string" where
  "dedupeKey tm loc = toLowerCase (tm @ ''|'' @ loc)"

fun cleanStops :: "string \<Rightarrow> string list \<Rightarrow> Stop list \<Rightarrow> Stop list" where
  "cleanStops school seen [] = []"
| "cleanStops school seen (s # ss) =
     (if location s = [] then cleanStops school seen ss
      else
        let loc = cleanLocationV4 (location s) in
        if loc = [] then cleanStops school seen ss
        else if toLowerCase loc = toLowerCase school then cleanStops school seen ss
        else if isManeuver loc then cleanStops school seen ss
        else
          let tm = normalizeTimeV4 (time s); key = dedupeKey tm loc in
          if key \<in> set seen then cleanStops school seen ss
          else \<lparr>time = tm, location = loc, students = students s, latitude = None,
                 longitude = None, geocodeError = None\<rparr>
               # cleanStops school (key # seen) ss)"

definition cleanSchool :: "Route \<Rightarrow> string \<Rightarrow> string" where
  "cleanSchool route fallbackSchool =
     (let s = trim (if schoolName route \<noteq> [] then schoolName route else fallbackSchool)
      in if s = [] then ''Unknown Route'' else s)"

definition cleanRouteV4 :: "Route \<Rightarrow> string \<Rightarrow> string \<Rightarrow> Route" where
  "cleanRouteV4 route fallbackSchool fallbackBus =
     (let school = cleanSchool route fallbackSchool;
          bus0 = normalizeBusV4 (if busNumber route \<noteq> [] then busNumber route else fallbackBus);
          bus = (if bus0 = [] then ''N-A'' else bus0)
      in \<lparr>busNumber = bus, schoolName = school, stops = cleanStops school [] (stops route)\<rparr>)"

text \<open>
  For the statement of the dedup property: the key of a cleaned stop, and the stops
  that pass the filters of the loop, normalised, before duplicates are dropped.
\<close>

definition stopKey :: "Stop \<Rightarrow> string" where
  "stopKey s = dedupeKey (time s) (location s)"

fun candidateStops :: "string \<Rightarrow> Stop list \<Rightarrow> Stop list" where
  "candidateStops school [] = []"
| "candidateStops school (s # ss) =
     (if location s = [] then candidateStops school ss
      else
        let loc = cleanLocationV4 (location s) in
        if loc = [] \<or> toLowerCase loc = toLowerCase school \<or> isManeuver loc
        then candidateStops school ss
        else \<lparr>time = normalizeTimeV4 (time s), location = loc, students = students s,
               latitude = None, longitude = None, geocodeError = None\<rparr>
             # candidateStops school ss)"

section \<open>Phone numbers (route\_sync\_dual\_v3)\<close>

text \<open>
  \<open>normalizePhonesV3\<close>: the raw field is split at line feeds; each line goes through
  three maps (keep digits and the letters x and X, drop a leading 1 of an 11-character
  result, format a result of 10 or more characters from its first ten); empty and
  already seen results are filtered out; the rest is joined with line feeds.
\<close>

fun splitLines :: "string \<Rightarrow> string list" where
  "splitLines [] = [[]]"
| "splitLines (c # cs) =
     (if c = CHR 0x0A then [] # splitLines cs
      else case splitLines cs of l # ls \<Rightarrow> (c # l) # ls | [] \<Rightarrow> [[c]])"

fun joinLines :: "string list \<Rightarrow> string" where
  "joinLines [] = []"
| "joinLines [l] = l"
| "joinLines (l # ls) = l @ [CHR 0x0A] @ joinLines ls"

definition keepPhoneChars :: "string \<Rightarrow> string" where
  "keepPhoneChars s = filter (\<lambda>c. isDigit c \<or> c = CHR ''x'' \<or> c = CHR ''X'') s"

definition dropCountryCode :: "string \<Rightarrow> string" where
  "dropCountryCode s = (if length s = 11 \<and> take 1 s = ''1'' then drop 1 s else s)"

definition formatPhone :: "string \<Rightarrow> string" where
  "formatPhone s =
     (if 10 \<le> length s
      then take 3 s @ ''-'' @ take 3 (drop 3 s) @ ''-'' @ take 4 (drop 6 s)
      else s)"

fun keepFirstSeen :: "string list \<Rightarrow> string list \<Rightarrow> string list" where
  "keepFirstSeen seen [] = []"
| "keepFirstSeen seen (s # ss) =
     (if s = [] then keepFirstSeen seen ss
      else if s \<in> set seen then keepFirstSeen seen ss
      else s # keepFirstSeen (s # seen) ss)"

definition normalizePhonesV3 :: "string \<Rightarrow> string" where
  "normalizePhonesV3 raw =
     (if raw = [] then []
      else joinLines (keepFirstSeen []
             (map formatPhone (map dropCountryCode (map keepPhoneChars (splitLines raw))))))"

text \<open>What the three maps do to one line.\<close>

definition normalizePhoneLine :: "string \<Rightarrow> string" where
  "normalizePhoneLine l = formatPhone (dropCountryCode (keepPhoneChars l))"

text \<open>A route with a repeated stop, the school itself as a stop and a driving instruction.\<close>

definition demoRoute :: Route where
  "demoRoute = \<lparr>busNumber = ''21'', schoolName = ''Guilford Park'',
      stops = [mkStop ''6:42 am'' ''123 Main St'', mkStop ''6:50'' ''9 Oak Ct'',
               mkStop ''6:42 AM'' '' 123  MAIN st'', mkStop '''' ''Guilford park'',
               mkStop ''7'' ''left on Oak'']\<rparr>"

text \<open>A phone field of three lines, two of them the same number.\<close>

definition demoPhones :: string where
  "demoPhones = ''1-410-555-0100'' @ [CHR 0x0A] @ ''(410) 555-0100'' @ [CHR 0x0A] @ ''555-0100 x2''"

section \<open>Canonical artifact names\<close>

text \<open>
  \<open>canonicalizeSchoolV4\<close> chains five steps: \<open>toUpperCase\<close>, then
  \<open>replace(/\s*[-]\s*/g, ' ')\<close> (the en and em dashes of the source's class are
  outside ASCII), then \<open>replace(/\b\(?\s*ROUTE\s*\)?/i, '')\<close> for the first match
  only, then \<open>replace(/\s+\((AM|PM|MID-?DAY)\)$/i, '')\<close>, then the white-space
  normalisation.

  \<open>replaceDashes\<close> carries the white space read since the last other character:
  a dash swallows it, anything else writes it out.  After a dash, white space belongs
  to the same match and is dropped.
\<close>

fun replaceDashes :: "string \<Rightarrow> bool \<Rightarrow> string \<Rightarrow> string" where
  "replaceDashes pend afterDash [] = pend"
| "replaceDashes pend afterDash (c # cs) =
     (if c = CHR ''-'' then CHR '' '' # replaceDashes [] True cs
      else if isSpace c
        then (if afterDash then replaceDashes [] True cs else replaceDashes (pend @ [c]) False cs)
      else pend @ c # replaceDashes [] False cs)"

text \<open>
  A match of \<open>\b\(?\s*ROUTE\s*\)?\<close> at the current position, given whether the
  character before it is a word character; the result is the text after the match.
\<close>

definition routeMatchAt :: "bool \<Rightarrow> string \<Rightarrow> string option" where
  "routeMatchAt prev r =
     (if prev = (case r of [] \<Rightarrow> False | c # _ \<Rightarrow> isWordChar c) then None
      else
        let r1 = (case r of [] \<Rightarrow> r | c # cs \<Rightarrow> if c = CHR ''('' then cs else r);
            r2 = dropWhile isSpace r1
        in if prefix ''ROUTE'' (toUpperCase r2)
           then let r3 = dropWhile isSpace (drop 5 r2)
                in Some (case r3 of [] \<Rightarrow> r3 | c # cs \<Rightarrow> if c = CHR '')'' then cs else r3)
           else None)"

fun removeRoute :: "bool \<Rightarrow> string \<Rightarrow> string" where
  "removeRoute prev [] = []"
| "removeRoute prev (c # cs) =
     (case routeMatchAt prev (c # cs) of
        Some rest \<Rightarrow> rest
      | None \<Rightarrow> c # removeRoute (isWordChar c) cs)"

fun removePeriodSuffix :: "string \<Rightarrow> string" where
  "removePeriodSuffix [] = []"
| "removePeriodSuffix (c # cs) =
     (if isSpace c \<and>
         toUpperCase (dropWhile isSpace cs) \<in> set [''(AM)'', ''(PM)'', ''(MIDDAY)'', ''(MID-DAY)'']
      then [] else c # removePeriodSuffix cs)"

definition canonicalizeSchoolV4 :: "string \<Rightarrow> string" where
  "canonicalizeSchoolV4 s =
     normalizeWsV4 (removePeriodSuffix (removeRoute False (replaceDashes [] False (toUpperCase s))))"

definition canonicalRouteFileStemV4 :: "string \<Rightarrow> Stop list \<Rightarrow> string" where
  "canonicalRouteFileStemV4 school sts =
     canonicalizeSchoolV4 school @ '' ('' @ canonicalPeriodV4 sts school @ '')''"

section \<open>Persisted state\<close>

text \<open>A thrown value: an \<open>Error\<close> with its message, or \<open>null\<close>.\<close>

datatype jserror = NullError | Err string

definition errTextV4 :: "jserror \<Rightarrow> string" where
  "errTextV4 e = (case e of NullError \<Rightarrow> ''null'' | Err m \<Rightarrow> if m \<noteq> [] then m else ''Error'')"

text \<open>
  What \<open>JSON.parse\<close> returns.  \<open>JSON.parse\<close> and \<open>Number\<close> are built into
  the language; \<open>loadStateV4\<close> takes them as parameters: \<open>parse\<close> answers
  \<open>None\<close> where \<open>JSON.parse\<close> throws, and a number is \<open>None\<close> for
  \<open>NaN\<close>.
\<close>

datatype json =
  JNull | JBool bool | JNum real | JStr string | JArr "json list" | JObj "(string \<times> json) list"

fun truthy :: "json \<Rightarrow> bool" where
  "truthy JNull = False"
| "truthy (JBool b) = b"
| "truthy (JNum x) = (x \<noteq> 0)"
| "truthy (JStr s) = (s \<noteq> [])"
| "truthy (JArr xs) = True"
| "truthy (JObj kvs) = True"

text \<open>
  Reading one of the four properties \<open>queue\<close>, \<open>pos\<close>, \<open>processed\<close>,
  \<open>geocodeCache\<close>: only an object can have them, \<open>None\<close> is \<open>undefined\<close>.
  Reading a property of \<open>null\<close> throws; \<open>loadStateV4\<close> handles that case
  before it reads.
\<close>

fun getProp :: "json \<Rightarrow> string \<Rightarrow> json option" where
  "getProp (JObj kvs) k = map_of kvs k"
| "getProp v k = None"

text \<open>\<open>x || d\<close>.\<close>

definition orElse :: "json option \<Rightarrow> json \<Rightarrow> json" where
  "orElse x d = (case x of Some v \<Rightarrow> if truthy v then v else d | None \<Rightarrow> d)"

text \<open>
  What the three Drive calls in front of the \<open>try\<close> block find
  (\<open>DriveApp.getFolderById\<close>, \<open>getFilesByName\<close>, \<open>hasNext\<close>): one of them
  throws, or there is no file of that name, or there is one; the content of that file
  is read inside the \<open>try\<close> block, where the read can fail.
\<close>

datatype state_doc = LookupFails jserror | NoStateFile | Unreadable | Content string

text \<open>
  The object that \<open>loadStateV4\<close> returns.  Its properties hold whatever the
  document held, so they are JSON values here; the batch loop below works on the
  typed \<open>PipelineState\<close>.
\<close>

record StoredState =
  stQueue :: "json list"
  stPos :: "real option"
  stProcessed :: json
  stGeocodeCache :: json

definition emptyState :: StoredState where
  "emptyState = \<lparr>stQueue = [], stPos = Some 0, stProcessed = JObj [], stGeocodeCache = JObj []\<rparr>"

text \<open>
  \<open>loadStateV4\<close>: an error of the lookup leaves the function (\<open>Inl\<close>); every
  throw after it is caught and answered with the empty state.
\<close>

definition loadStateV4 ::
  "(string \<Rightarrow> json option) \<Rightarrow> (json \<Rightarrow> real option) \<Rightarrow> state_doc \<Rightarrow> jserror + StoredState" where
  "loadStateV4 parse toNumber doc =
     (case doc of
        LookupFails e \<Rightarrow> Inl e
      | NoStateFile \<Rightarrow> Inr emptyState
      | Unreadable \<Rightarrow> Inr emptyState
      | Content text \<Rightarrow>
          (case parse text of
             None \<Rightarrow> Inr emptyState
           | Some parsed \<Rightarrow>
               if parsed = JNull then Inr emptyState
               else
                 Inr \<lparr>stQueue = (case getProp parsed ''queue'' of Some (JArr xs) \<Rightarrow> xs | _ \<Rightarrow> []),
                      stPos = toNumber (orElse (getProp parsed ''pos'') (JNum 0)),
                      stProcessed = orElse (getProp parsed ''processed'') (JObj []),
                      stGeocodeCache = orElse (getProp parsed ''geocodeCache'') (JObj [])\<rparr>))"

text \<open>A parser that knows two documents, for the examples.\<close>

definition demoParse :: "string \<Rightarrow> json option" where
  "demoParse s =
     (if s = ''null'' then Some JNull
      else if s = ''[]'' then Some (JArr [])
      else None)"

definition demoNumber :: "json \<Rightarrow> real option" where
  "demoNumber v = (case v of JNum x \<Rightarrow> Some x | _ \<Rightarrow> None)"

section \<open>Errors, external services and their trace\<close>

text \<open>\<open>String(n)\<close> for an integer.\<close>

definition digitChar :: "int \<Rightarrow> char" where
  "digitChar d = ''0123456789'' ! nat d"

function showDigits :: "int \<Rightarrow> string" where
  "showDigits n = (if n < 10 then [digitChar n] else showDigits (n div 10) @ [digitChar (n mod 10)])"
  by pat_completeness auto
termination
  by (relation "measure nat") auto

declare showDigits.simps [simp del]

definition showInt :: "int \<Rightarrow> string" where
  "showInt i = (if i < 0 then ''-'' @ showDigits (- i) else showDigits i)"

record WorkItem =
  routeType :: string
  fileId :: string
  fileName :: string
  updatedMs :: int
  busNumberHint :: string
  schoolNameHint :: string

text \<open>
  Every call that leaves the script is written to a trace, in order: the document
  read of the RegEd parser, one OCR conversion, one HTTP request to the generative
  service, one geocoder request, a pause of \<open>Utilities.sleep\<close>, and the two writes
  of the publisher (folder name, file name).
\<close>

datatype call =
  DocsGet string | OcrCopy string | Fetch string | Geocode string | Sleep nat
  | PutJson string string | PutSheet string string

text \<open>What \<open>JSON.parse\<close> finds in the text of the generative answer.\<close>

datatype parsed = Malformed | NotArray | Parsed "Route list"

text \<open>
  The services, as functions of the length of the trace at the moment of the call
  (so the same request can be answered differently later) and of the request:
  \<^item> \<open>regEdRoutes\<close>: the whole of \<open>parseRegEdDocV4\<close> for a work item;
  \<^item> \<open>ocrText\<close>: one run of the OCR function (copy, read the text, trash the copy);
  \<^item> \<open>apiKey\<close>: the script property, empty when it is not set;
  \<^item> \<open>fetch\<close>: one \<open>UrlFetchApp.fetch\<close> with \<open>muteHttpExceptions\<close>, for the
    OCR text in the prompt: it throws, or returns the status code and the content;
  \<^item> \<open>parseBody\<close>: \<open>JSON.parse\<close> of the content followed by the guarded path to
    \<open>candidates[0].content.parts[0].text\<close>: it throws where \<open>JSON.parse\<close> does, and
    returns the empty string where the path ends in a falsy value;
  \<^item> \<open>parseRoutes\<close>: \<open>JSON.parse\<close> of that text;
  \<^item> \<open>geocode\<close>: one \<open>geocoder.geocode(query)\<close>: it throws, or returns the
    location of the first result, if there is one;
  \<^item> \<open>jitter\<close>: \<open>Math.floor(Math.random() * 200)\<close>;
  \<^item> \<open>clock\<close>: \<open>new Date().toISOString()\<close>;
  \<^item> \<open>jsonUrl\<close>, \<open>sheetUrl\<close>: the links of a written file (folder, name).
\<close>

record Env =
  regEdRoutes :: "nat \<Rightarrow> WorkItem \<Rightarrow> jserror + Route list"
  ocrText :: "nat \<Rightarrow> string \<Rightarrow> jserror + string"
  apiKey :: string
  fetch :: "nat \<Rightarrow> string \<Rightarrow> jserror + nat \<times> string"
  parseBody :: "string \<Rightarrow> jserror + string"
  parseRoutes :: "string \<Rightarrow> parsed"
  geocode :: "nat \<Rightarrow> string \<Rightarrow> jserror + (real \<times> real) option"
  jitter :: "nat \<Rightarrow> nat"
  clock :: "nat \<Rightarrow> string"
  jsonUrl :: "string \<Rightarrow> string \<Rightarrow> string"
  sheetUrl :: "string \<Rightarrow> string \<Rightarrow> string"

section \<open>Retry executor\<close>

text \<open>
  \<open>withRetryV4(fn, attempts, baseMs)\<close>.  The function \<open>fn\<close> takes the trace and
  returns its outcome and the longer trace.  \<open>retryLoop\<close> is the \<open>for\<close> loop from
  index \<open>i\<close> with \<open>k\<close> iterations left; only a throw of \<open>fn\<close> leads to another
  iteration, after a pause of \<open>baseMs * 2 ^ i\<close> plus jitter.
\<close>

fun retryLoop ::
  "Env \<Rightarrow> (call list \<Rightarrow> (jserror + 'a) \<times> call list) \<Rightarrow> nat \<Rightarrow> jserror \<Rightarrow> nat \<Rightarrow> nat \<Rightarrow>
   call list \<Rightarrow> (jserror + 'a) \<times> call list" where
  "retryLoop env fn baseMs lastErr i 0 tr = (Inl lastErr, tr)"
| "retryLoop env fn baseMs lastErr i (Suc k) tr =
     (case fn tr of
        (Inr v, tr1) \<Rightarrow> (Inr v, tr1)
      | (Inl e, tr1) \<Rightarrow>
          if k = 0 then (Inl e, tr1)
          else retryLoop env fn baseMs e (Suc i) k
                 (tr1 @ [Sleep (baseMs * 2 ^ i + jitter env (length tr1))]))"

definition withRetryV4 ::
  "Env \<Rightarrow> (call list \<Rightarrow> (jserror + 'a) \<times> call list) \<Rightarrow> nat \<Rightarrow> nat \<Rightarrow> call list \<Rightarrow>
   (jserror + 'a) \<times> call list" where
  "withRetryV4 env fn attempts baseMs tr = retryLoop env fn baseMs NullError 0 attempts tr"

section \<open>OCR and generative extraction\<close>

definition ocrPdfToTextV4 :: "Env \<Rightarrow> string \<Rightarrow> call list \<Rightarrow> (jserror + string) \<times> call list" where
  "ocrPdfToTextV4 env fid tr =
     withRetryV4 env
       (\<lambda>t. (case ocrText env (length t) fid of Inl e \<Rightarrow> Inl e | Inr txt \<Rightarrow> Inr (trim txt),
             t @ [OcrCopy fid]))
       3 500 tr"

text \<open>
  \<open>extractSpecEdRoutesV4\<close>.  Only the request is inside \<open>withRetryV4\<close>; the test
  of the status code and both \<open>JSON.parse\<close> calls come after it.
\<close>

definition extractSpecEdRoutesV4 ::
  "Env \<Rightarrow> string \<Rightarrow> string \<Rightarrow> string \<Rightarrow> call list \<Rightarrow> (jserror + Route list) \<times> call list" where
  "extractSpecEdRoutesV4 env text fallbackSchool fallbackBus tr =
     (if text = [] then (Inr [], tr)
      else if apiKey env = [] then (Inl (Err ''Missing GEMINI_API_KEY script property''), tr)
      else
        case withRetryV4 env (\<lambda>t. (fetch env (length t) text, t @ [Fetch text])) 3 1000 tr of
          (Inl e, tr1) \<Rightarrow> (Inl e, tr1)
        | (Inr (code, content), tr1) \<Rightarrow>
            if code \<noteq> 200
            then (Inl (Err (''Gemini API '' @ showInt (int code) @ '': '' @ content)), tr1)
            else
              (case parseBody env content of
                 Inl e \<Rightarrow> (Inl e, tr1)
               | Inr txt \<Rightarrow>
                   if txt = [] then (Inr [], tr1)
                   else
                     (case parseRoutes env txt of
                        NotArray \<Rightarrow> (Inr [], tr1)
                      | Malformed \<Rightarrow>
                          (Inr [\<lparr>busNumber = fallbackBus, schoolName = fallbackSchool, stops = []\<rparr>], tr1)
                      | Parsed rs \<Rightarrow>
                          if rs = []
                          then (Inr [\<lparr>busNumber = fallbackBus, schoolName = fallbackSchool, stops = []\<rparr>], tr1)
                          else (Inr rs, tr1))))"

section \<open>Pipeline state and geocoding\<close>

text \<open>
  A value of the geocode cache passes the test of \<open>geocodeStopsV4\<close> when it is an
  object whose \<open>lat\<close> and \<open>lng\<close> are numbers (\<open>Coord\<close>); \<open>NotCoord\<close> is any
  other value that a state document may hold under a key.
\<close>

datatype cacheval = Coord real real | NotCoord

record PipelineState =
  queue :: "WorkItem list"
  pos :: nat
  processed :: "string \<rightharpoonup> string"
  geocodeCache :: "string \<rightharpoonup> cacheval"

text \<open>
  What one run carries along: the state, the log lines, the trace of calls and the
  files of the output folders, keyed by folder name and file name.
\<close>

record Artifact_meta =
  sourceType :: string
  sourceFileId :: string
  sourceFileName :: string
  sourceUpdatedMs :: int
  generatedAt :: string
  model :: string

record Artifact = Route +
  meta :: Artifact_meta
  period :: string

record Run =
  pstate :: PipelineState
  logs :: "string list"
  calls :: "call list"
  jsonFiles :: "string \<times> string \<rightharpoonup> Artifact"
  sheetFiles :: "string \<times> string \<rightharpoonup> Route"

definition COUNTY_SUFFIX_V4 :: string where
  "COUNTY_SUFFIX_V4 = '', Howard County, Maryland''"

definition MODEL_V4 :: string where
  "MODEL_V4 = ''gemini-2.5-flash''"

definition BATCH_SIZE_V4 :: nat where
  "BATCH_SIZE_V4 = 6"

definition WRITE_JSON_V4 :: bool where
  "WRITE_JSON_V4 = True"

definition WRITE_SHEETS_V4 :: bool where
  "WRITE_SHEETS_V4 = True"

definition geocodeQuery :: "Stop \<Rightarrow> string" where
  "geocodeQuery stop = location stop @ COUNTY_SUFFIX_V4"

definition cacheHit :: "(string \<rightharpoonup> cacheval) \<Rightarrow> string \<Rightarrow> (real \<times> real) option" where
  "cacheHit cache key = (case cache key of Some (Coord la lo) \<Rightarrow> Some (la, lo) | _ \<Rightarrow> None)"

definition putCache :: "string \<Rightarrow> cacheval \<Rightarrow> Run \<Rightarrow> Run" where
  "putCache key v run =
     run\<lparr>pstate := (pstate run)\<lparr>geocodeCache := (geocodeCache (pstate run))(key \<mapsto> v)\<rparr>\<rparr>"

text \<open>The body of the inner loop of \<open>geocodeStopsV4\<close>, for one stop.\<close>

definition geocodeStop :: "Env \<Rightarrow> Stop \<Rightarrow> Run \<Rightarrow> (jserror + Stop) \<times> Run" where
  "geocodeStop env stop run =
     (let query = geocodeQuery stop; key = toLowerCase query in
      case cacheHit (geocodeCache (pstate run)) key of
        Some (la, lo) \<Rightarrow> (Inr (stop\<lparr>latitude := Some la, longitude := Some lo\<rparr>), run)
      | None \<Rightarrow>
          (case withRetryV4 env (\<lambda>t. (geocode env (length t) query, t @ [Geocode query])) 3 500
                  (calls run) of
             (Inl e, tr) \<Rightarrow> (Inl e, run\<lparr>calls := tr\<rparr>)
           | (Inr None, tr) \<Rightarrow>
               (Inr (stop\<lparr>geocodeError := Some (''No match for '' @ [CHR 0x22] @ location stop @ [CHR 0x22])\<rparr>),
                run\<lparr>calls := tr @ [Sleep 150]\<rparr>)
           | (Inr (Some (la, lo)), tr) \<Rightarrow>
               (Inr (stop\<lparr>latitude := Some la, longitude := Some lo\<rparr>),
                putCache key (Coord la lo) (run\<lparr>calls := tr @ [Sleep 150]\<rparr>))))"

fun geocodeStopList :: "Env \<Rightarrow> Stop list \<Rightarrow> Run \<Rightarrow> (jserror + Stop list) \<times> Run" where
  "geocodeStopList env [] run = (Inr [], run)"
| "geocodeStopList env (s # ss) run =
     (case geocodeStop env s run of
        (Inl e, run1) \<Rightarrow> (Inl e, run1)
      | (Inr s', run1) \<Rightarrow>
          (case geocodeStopList env ss run1 of
             (Inl e, run2) \<Rightarrow> (Inl e, run2)
           | (Inr ss', run2) \<Rightarrow> (Inr (s' # ss'), run2)))"

fun geocodeStopsV4 :: "Env \<Rightarrow> Route list \<Rightarrow> Run \<Rightarrow> (jserror + Route list) \<times> Run" where
  "geocodeStopsV4 env [] run = (Inr [], run)"
| "geocodeStopsV4 env (r # rs) run =
     (case geocodeStopList env (stops r) run of
        (Inl e, run1) \<Rightarrow> (Inl e, run1)
      | (Inr sts, run1) \<Rightarrow>
          (case geocodeStopsV4 env rs run1 of
             (Inl e, run2) \<Rightarrow> (Inl e, run2)
           | (Inr rs', run2) \<Rightarrow> (Inr (r\<lparr>stops := sts\<rparr> # rs'), run2)))"

text \<open>The requests that a trace sent to the geocoder.\<close>

fun geocodeCalls :: "call list \<Rightarrow> string list" where
  "geocodeCalls [] = []"
| "geocodeCalls (Geocode q # cs) = q # geocodeCalls cs"
| "geocodeCalls (c # cs) = geocodeCalls cs"

text \<open>
  For the geocoding property.  \<open>matchedKeys env n tr\<close> lists the lower-cased
  queries of the geocoder requests of \<open>tr\<close> that were answered with a match, where
  \<open>n\<close> is the position of the first element of \<open>tr\<close> in the whole trace.
  \<open>noRepeatAfterMatch env n seen tr\<close> says that no request of \<open>tr\<close> is for a
  query of \<open>seen\<close> or for a query that an earlier request of \<open>tr\<close> had matched.
  \<open>matchedCached\<close> says that every matched query of the trace has coordinates in
  the cache.  \<open>cacheGrows c c'\<close> says that \<open>c'\<close> has every key of \<open>c\<close>, keeps
  every entry with coordinates, and differs from \<open>c\<close> only in entries with
  coordinates.
\<close>

definition isMatch :: "jserror + (real \<times> real) option \<Rightarrow> bool" where
  "isMatch r = (case r of Inr (Some p) \<Rightarrow> True | _ \<Rightarrow> False)"

fun matchedKeys :: "Env \<Rightarrow> nat \<Rightarrow> call list \<Rightarrow> string list" where
  "matchedKeys env n [] = []"
| "matchedKeys env n (Geocode q # cs) =
     (if isMatch (geocode env n q) then toLowerCase q # matchedKeys env (Suc n) cs
      else matchedKeys env (Suc n) cs)"
| "matchedKeys env n (c # cs) = matchedKeys env (Suc n) cs"

fun noRepeatAfterMatch :: "Env \<Rightarrow> nat \<Rightarrow> string list \<Rightarrow> call list \<Rightarrow> bool" where
  "noRepeatAfterMatch env n seen [] = True"
| "noRepeatAfterMatch env n seen (Geocode q # cs) =
     (toLowerCase q \<notin> set seen \<and>
      noRepeatAfterMatch env (Suc n)
        (if isMatch (geocode env n q) then toLowerCase q # seen else seen) cs)"
| "noRepeatAfterMatch env n seen (c # cs) = noRepeatAfterMatch env (Suc n) seen cs"

definition matchedCached :: "Env \<Rightarrow> Run \<Rightarrow> bool" where
  "matchedCached env run =
     list_all (\<lambda>k. cacheHit (geocodeCache (pstate run)) k \<noteq> None) (matchedKeys env 0 (calls run))"

definition cacheGrows :: "(string \<rightharpoonup> cacheval) \<Rightarrow> (string \<rightharpoonup> cacheval) \<Rightarrow> bool" where
  "cacheGrows c c' =
     (\<forall>k. (c k \<noteq> None \<longrightarrow> c' k \<noteq> None) \<and>
          (\<forall>a b. c k = Some (Coord a b) \<longrightarrow> c' k = Some (Coord a b)) \<and>
          (c' k \<noteq> c k \<longrightarrow> (\<exists>a b. c' k = Some (Coord a b))))"

text \<open>The two statements about the trace, taken together.\<close>

definition geoInv :: "Env \<Rightarrow> Run \<Rightarrow> bool" where
  "geoInv env run = (matchedCached env run \<and> noRepeatAfterMatch env 0 [] (calls run))"

text \<open>
  An environment whose geocoder never finds a match and a run that starts from
  nothing, for the examples; and a cleaned route that names one place at two times.
\<close>

definition demoEnv :: Env where
  "demoEnv =
     \<lparr>regEdRoutes = (\<lambda>n item. Inr []), ocrText = (\<lambda>n fid. Inr []), apiKey = ''key'',
      fetch = (\<lambda>n txt. Inr (200, [])), parseBody = (\<lambda>s. Inr []), parseRoutes = (\<lambda>s. NotArray),
      geocode = (\<lambda>n q. Inr None), jitter = (\<lambda>n. 0), clock = (\<lambda>n. ''T'' @ showInt (int n)),
      jsonUrl = (\<lambda>dir nm. ''json:'' @ dir @ ''/'' @ nm),
      sheetUrl = (\<lambda>dir nm. ''sheet:'' @ dir @ ''/'' @ nm)\<rparr>"

definition emptyRun :: Run where
  "emptyRun =
     \<lparr>pstate = \<lparr>queue = [], pos = 0, processed = Map.empty, geocodeCache = Map.empty\<rparr>,
      logs = [], calls = [], jsonFiles = Map.empty, sheetFiles = Map.empty\<rparr>"

definition twiceRoute :: Route where
  "twiceRoute =
     \<lparr>busNumber = ''021'', schoolName = ''GUILFORD PARK'',
      stops = [mkStop ''6:42 AM'' ''Nowhere Ln'', mkStop ''6:55 AM'' ''Nowhere Ln'']\<rparr>"

text \<open>The same environment with a geocoder that finds every place at one point.\<close>

definition demoEnvFound :: Env where
  "demoEnvFound = demoEnv\<lparr>geocode := (\<lambda>n q. Inr (Some (39.12345, -76.54321)))\<rparr>"

text \<open>The run after the route above has been geocoded with the geocoder that finds it.\<close>

definition foundRun :: Run where
  "foundRun = snd (geocodeStopsV4 demoEnvFound [twiceRoute] emptyRun)"

section \<open>Publishing\<close>

text \<open>
  The body of the publishing loop for one cleaned, geocoded route: the folder is
  named after the bus number, the artifact is written under the canonical name with
  the extension \<open>.json\<close>, then the sheet under the canonical name.  The content of
  a file is kept as the value that was written, not as its serialisation.
\<close>

definition artifactOf :: "WorkItem \<Rightarrow> string \<Rightarrow> Route \<Rightarrow> Artifact" where
  "artifactOf item now route =
     \<lparr>busNumber = busNumber route, schoolName = schoolName route, stops = stops route,
      meta = \<lparr>sourceType = routeType item, sourceFileId = fileId item,
               sourceFileName = fileName item, sourceUpdatedMs = updatedMs item,
               generatedAt = now,
               model = (if routeType item = ''SPECED_PDF'' then MODEL_V4
                        else ''deterministic-red-lines'')\<rparr>,
      period = canonicalPeriodV4 (stops route) (schoolName route)\<rparr>"

definition upsertJsonV4 :: "Env \<Rightarrow> string \<Rightarrow> string \<Rightarrow> Artifact \<Rightarrow> Run \<Rightarrow> string \<times> Run" where
  "upsertJsonV4 env dir fname obj run =
     (jsonUrl env dir fname,
      run\<lparr>jsonFiles := (jsonFiles run)((dir, fname) \<mapsto> obj),
          calls := calls run @ [PutJson dir fname]\<rparr>)"

definition upsertSheetV4 :: "Env \<Rightarrow> string \<Rightarrow> string \<Rightarrow> Route \<Rightarrow> Run \<Rightarrow> string \<times> Run" where
  "upsertSheetV4 env dir sname route run =
     (sheetUrl env dir sname,
      run\<lparr>sheetFiles := (sheetFiles run)((dir, sname) \<mapsto> route),
          calls := calls run @ [PutSheet dir sname]\<rparr>)"

definition addLog :: "string \<Rightarrow> Run \<Rightarrow> Run" where
  "addLog line run = run\<lparr>logs := logs run @ [line]\<rparr>"

definition publishOne :: "Env \<Rightarrow> WorkItem \<Rightarrow> Route \<Rightarrow> Run \<Rightarrow> Run" where
  "publishOne env item route run =
     (let dir = (if busNumber route = [] then ''N-A'' else busNumber route);
          routeName = canonicalRouteFileStemV4 (schoolName route) (stops route);
          run1 =
            (if WRITE_JSON_V4
             then
               let artifact = artifactOf item (clock env (length (calls run))) route;
                   (url, r) = upsertJsonV4 env dir (routeName @ ''.json'') artifact run
               in addLog (''[OK] '' @ busNumber route @ '' '' @ routeName @ ''.json -> '' @ url) r
             else run)
      in if WRITE_SHEETS_V4
         then
           let (url, r) = upsertSheetV4 env dir routeName route run1
           in addLog (''[OK] '' @ busNumber route @ '' '' @ routeName @ '' (sheet) -> '' @ url) r
         else run1)"

text \<open>
  \<open>publishRoutesV4\<close>.  It returns normally after either warning; only the geocoder
  can make it throw.
\<close>

definition publishRoutesV4 :: "Env \<Rightarrow> Route list \<Rightarrow> WorkItem \<Rightarrow> Run \<Rightarrow> jserror option \<times> Run" where
  "publishRoutesV4 env routes item run =
     (if routes = [] then (None, addLog (''[WARN] '' @ fileName item @ '': no routes extracted'') run)
      else
        let cleaned =
              filter (\<lambda>r. stops r \<noteq> [])
                (map (\<lambda>r. cleanRouteV4 r (schoolNameHint item) (busNumberHint item)) routes)
        in if cleaned = []
           then (None, addLog (''[WARN] '' @ fileName item @ '': no valid stops after cleanup'') run)
           else
             case geocodeStopsV4 env cleaned run of
               (Inl e, run1) \<Rightarrow> (Some e, run1)
             | (Inr geocoded, run1) \<Rightarrow> (None, foldl (\<lambda>r route. publishOne env item route r) run1 geocoded))"

section \<open>The batch loop of the run coordinator\<close>

text \<open>\<open>stripExtV4\<close>: the name up to its last dot.\<close>

definition stripExtV4 :: "string \<Rightarrow> string" where
  "stripExtV4 nm =
     (if CHR ''.'' \<in> set nm then rev (tl (dropWhile (\<lambda>c. c \<noteq> CHR ''.'') (rev nm))) else nm)"

text \<open>
  The two texts made from the time stamp of an item: \<open>String(item.updatedMs || '')\<close>
  is compared with the stored entry, \<open>String(item.updatedMs || 0)\<close> is stored.
\<close>

definition comparedStamp :: "WorkItem \<Rightarrow> string" where
  "comparedStamp item = (if updatedMs item = 0 then [] else showInt (updatedMs item))"

definition storedStamp :: "WorkItem \<Rightarrow> string" where
  "storedStamp item = showInt (updatedMs item)"

text \<open>The test \<open>String(prev || '') === String(item.updatedMs || '')\<close>.\<close>

definition unchanged :: "PipelineState \<Rightarrow> WorkItem \<Rightarrow> bool" where
  "unchanged st item =
     ((case processed st (fileId item) of None \<Rightarrow> [] | Some prev \<Rightarrow> prev) = comparedStamp item)"

text \<open>The first half of the \<open>try\<close> block: the routes of the item.\<close>

definition extractRoutes :: "Env \<Rightarrow> WorkItem \<Rightarrow> Run \<Rightarrow> (jserror + Route list) \<times> Run" where
  "extractRoutes env item run =
     (if routeType item = ''REGED_DOC''
      then (regEdRoutes env (length (calls run)) item,
            run\<lparr>calls := calls run @ [DocsGet (fileId item)]\<rparr>)
      else if routeType item = ''SPECED_PDF''
      then
        (case ocrPdfToTextV4 env (fileId item) (calls run) of
           (Inl e, tr) \<Rightarrow> (Inl e, run\<lparr>calls := tr\<rparr>)
         | (Inr txt, tr) \<Rightarrow>
             (case extractSpecEdRoutesV4 env txt
                     (if schoolNameHint item \<noteq> [] then schoolNameHint item
                      else stripExtV4 (fileName item))
                     (busNumberHint item) tr of
                (res, tr') \<Rightarrow> (res, run\<lparr>calls := tr'\<rparr>)))
      else (Inr [], run))"

definition markProcessed :: "WorkItem \<Rightarrow> Run \<Rightarrow> Run" where
  "markProcessed item run =
     run\<lparr>pstate := (pstate run)\<lparr>processed := (processed (pstate run))(fileId item \<mapsto> storedStamp item)\<rparr>\<rparr>"

text \<open>One iteration of the \<open>for\<close> loop of \<open>syncRoutesUnifiedV4\<close>.\<close>

definition processItem :: "Env \<Rightarrow> WorkItem \<Rightarrow> Run \<Rightarrow> Run" where
  "processItem env item run =
     (if fileId item = [] \<or> routeType item = [] then run
      else if unchanged (pstate run) item
      then addLog (''[SKIP] '' @ routeType item @ '' '' @ fileName item @ '': unchanged'') run
      else
        case extractRoutes env item run of
          (Inl e, run1) \<Rightarrow>
            addLog (''[ERROR] '' @ routeType item @ '' '' @ fileName item @ '': '' @ errTextV4 e) run1
        | (Inr routes, run1) \<Rightarrow>
            (case publishRoutesV4 env routes item run1 of
               (Some e, run2) \<Rightarrow>
                 addLog (''[ERROR] '' @ routeType item @ '' '' @ fileName item @ '': '' @ errTextV4 e) run2
             | (None, run2) \<Rightarrow> markProcessed item run2))"

text \<open>
  The loop itself, from \<open>state.pos\<close> to \<open>end\<close>; the first argument counts the
  iterations that are left.
\<close>

fun batchLoop :: "Env \<Rightarrow> nat \<Rightarrow> Run \<Rightarrow> Run" where
  "batchLoop env 0 run = run"
| "batchLoop env (Suc k) run =
     (let run1 = processItem env (queue (pstate run) ! pos (pstate run)) run
      in batchLoop env k (run1\<lparr>pstate := (pstate run1)\<lparr>pos := Suc (pos (pstate run1))\<rparr>\<rparr>))"

definition processBatch :: "Env \<Rightarrow> Run \<Rightarrow> Run" where
  "processBatch env run =
     batchLoop env
       (min (pos (pstate run) + BATCH_SIZE_V4) (length (queue (pstate run))) - pos (pstate run)) run"

text \<open>
  For the examples: a scanned sheet of bus 21 whose OCR text is empty, the same sheet
  in an environment whose generative service answers 503, one whose request fails
  twice before it is answered, and an item without a time stamp.
\<close>

definition demoItem :: WorkItem where
  "demoItem =
     \<lparr>routeType = ''SPECED_PDF'', fileId = ''file-1'', fileName = ''021 GUILFORD PARK.pdf'',
      updatedMs = 1700000000000, busNumberHint = ''021'', schoolNameHint = ''GUILFORD PARK''\<rparr>"

definition env503 :: Env where
  "env503 = demoEnv\<lparr>ocrText := (\<lambda>n fid. Inr ''6:42 AM 123 Main St''),
                     fetch := (\<lambda>n txt. Inr (503, ''unavailable''))\<rparr>"

definition envFlaky :: Env where
  "envFlaky = demoEnv\<lparr>ocrText := (\<lambda>n fid. Inr ''6:42 AM 123 Main St''),
                       fetch := (\<lambda>n txt. if n < 5 then Inl (Err ''Timeout'') else Inr (200, ''{}'')),
                       parseBody := (\<lambda>s. Inr ''not json''), parseRoutes := (\<lambda>s. Malformed)\<rparr>"

definition zeroItem :: WorkItem where
  "zeroItem = demoItem\<lparr>updatedMs := 0\<rparr>"

definition markedRun :: Run where
  "markedRun = markProcessed zeroItem emptyRun"

text \<open>
  For the statement of the naming property: a text in which no two white-space
  characters stand side by side.
\<close>

fun singleSpaced :: "string \<Rightarrow> bool" where
  "singleSpaced (a # b # cs) = (\<not> (isSpace a \<and> isSpace b) \<and> singleSpaced (b # cs))"
| "singleSpaced cs = True"

text \<open>A cleaned and geocoded route of one stop, for the examples.\<close>

definition demoPublished :: Route where
  "demoPublished =
     \<lparr>busNumber = ''021'', schoolName = ''Guilford Park'',
      stops = [(mkStop ''6:42 AM'' ''123 Main St'')\<lparr>latitude := Some 39.12345, longitude := Some (-76.54321)\<rparr>]\<rparr>"

text \<open>
  The scanned sheet of bus 21 end to end: the OCR text is not empty, the generative
  service answers with one route that names one place at two times (in different
  letter case), and the geocoder finds the place.  The queue holds this one item.
\<close>

definition scenarioRoute :: Route where
  "scenarioRoute =
     \<lparr>busNumber = ''21'', schoolName = ''Guilford Park'',
      stops = [(mkStop ''6:42 am'' ''123 Main St'')
                 \<lparr>students := [\<lparr>name = ''A. Student'', contactName = ''B. Parent'',
                                 phoneNumber = ''1-410-555-0100'', otherEquipment = []\<rparr>]\<rparr>,
               mkStop ''3:10 PM'' ''123 MAIN ST'']\<rparr>"

definition envScenario :: Env where
  "envScenario =
     demoEnvFound\<lparr>ocrText := (\<lambda>n fid. Inr ''6:42 AM 123 Main St  LEFT ON OAK ST''),
                  parseBody := (\<lambda>s. Inr ''[ one route ]''),
                  parseRoutes := (\<lambda>s. Parsed [scenarioRoute])\<rparr>"

definition queuedRun :: Run where
  "queuedRun = emptyRun\<lparr>pstate := (pstate emptyRun)\<lparr>queue := [demoItem]\<rparr>\<rparr>"

section \<open>Properties of the period classifier\<close>

lemma bestTime_eq:
  "bestTime b sts =
     (let ts = (case b of None \<Rightarrow> [] | Some x \<Rightarrow> [x]) @ parsedTimes sts
      in if ts = [] then None else Some (Min (set ts)))"
proof (induction sts arbitrary: b)
  case Nil
  then show ?case by (simp split: option.splits)
next
  case (Cons s ss)
  show ?case
  proof (cases "parseTimeMinsV4 (time s)")
    case None
    then show ?thesis using Cons.IH [of b]
      by simp
  next
    case pt: (Some t)
    show ?thesis
    proof (cases b)
      case None
      then show ?thesis using pt Cons.IH [of "Some t"]
        by simp
    next
      case (Some x)
      show ?thesis
      proof (cases "parsedTimes ss = []")
        case True
        then show ?thesis using Some pt Cons.IH [of "Some t"] Cons.IH [of "Some x"]
          by (auto simp add: min_def)
      next
        case False
        then show ?thesis using Some pt Cons.IH [of "Some t"] Cons.IH [of "Some x"]
          by (auto simp add: min_def)
      qed
    qed
  qed
qed

lemma bestTime_None: "parsedTimes sts = [] \<Longrightarrow> bestTime None sts = None"
  by (simp add: bestTime_eq)

lemma bestTime_Min: "parsedTimes sts \<noteq> [] \<Longrightarrow> bestTime None sts = Some (Min (set (parsedTimes sts)))"
  by (simp add: bestTime_eq)

lemma parse_642: "parseTimeMinsV4 ''6:42 AM'' = Some 402"
  by code_simp
lemma parse_415: "parseTimeMinsV4 ''4:15 PM'' = Some 975"
  by code_simp
lemma kw_pm: "keywordPeriod ''LINCOLN PM'' = ''PM''"
  by code_simp
lemma kw_route: "keywordPeriod ''LINCOLN'' = ''Route''"
  by code_simp

lemma keywordPeriod_range: "keywordPeriod school \<in> {''AM'', ''PM'', ''Mid-day'', ''Route''}"
  by (simp add: keywordPeriod_def Let_def)


lemma canonicalPeriod_best:
  "bestTime None sts = Some b \<Longrightarrow> canonicalPeriodV4 sts school =
     (if 360 \<le> b \<and> b \<le> 570 then ''AM''
      else if 570 < b \<and> b < 840 then ''Mid-day''
      else if 840 \<le> b \<and> b \<le> 1080 then ''PM''
      else keywordPeriod school)"
  by (simp add: canonicalPeriodV4_def)

lemma testWord_iff:
  "w \<noteq> [] \<Longrightarrow>
   testWord w prev s =
     (\<exists>pre post. s = pre @ w @ post \<and>
        (if pre = [] then \<not> prev else \<not> isWordChar (last pre)) \<and>
        (post = [] \<or> \<not> isWordChar (hd post)))"
proof (induction s arbitrary: prev)
  case Nil
  then show ?case by simp
next
  case (Cons c cs)
  have here: "(prefix w (c # cs) \<and> (case drop (length w) (c # cs) of [] \<Rightarrow> True | d # _ \<Rightarrow> \<not> isWordChar d)) =
              (\<exists>post. c # cs = w @ post \<and> (post = [] \<or> \<not> isWordChar (hd post)))"
  proof
    assume l: "prefix w (c # cs) \<and> (case drop (length w) (c # cs) of [] \<Rightarrow> True | d # _ \<Rightarrow> \<not> isWordChar d)"
    then obtain post where p: "c # cs = w @ post" by (auto simp add: prefix_def)
    then have "drop (length w) (c # cs) = post" by simp
    then show "\<exists>post. c # cs = w @ post \<and> (post = [] \<or> \<not> isWordChar (hd post))"
      using l p by (cases post) auto
  next
    assume "\<exists>post. c # cs = w @ post \<and> (post = [] \<or> \<not> isWordChar (hd post))"
    then obtain post where p: "c # cs = w @ post" "post = [] \<or> \<not> isWordChar (hd post)" by blast
    have "drop (length w) (c # cs) = post" using p(1) by simp
    then show "prefix w (c # cs) \<and> (case drop (length w) (c # cs) of [] \<Rightarrow> True | d # _ \<Rightarrow> \<not> isWordChar d)"
      using p by (cases post) (auto simp add: prefix_def)
  qed
  have later: "(\<exists>pre post. cs = pre @ w @ post \<and>
                  (if pre = [] then \<not> isWordChar c else \<not> isWordChar (last pre)) \<and>
                  (post = [] \<or> \<not> isWordChar (hd post))) =
               (\<exists>pre post. pre \<noteq> [] \<and> c # cs = pre @ w @ post \<and> \<not> isWordChar (last pre) \<and>
                  (post = [] \<or> \<not> isWordChar (hd post)))"
  proof
    assume "\<exists>pre post. cs = pre @ w @ post \<and>
                  (if pre = [] then \<not> isWordChar c else \<not> isWordChar (last pre)) \<and>
                  (post = [] \<or> \<not> isWordChar (hd post))"
    then obtain pre post where h: "cs = pre @ w @ post"
        "if pre = [] then \<not> isWordChar c else \<not> isWordChar (last pre)"
        "post = [] \<or> \<not> isWordChar (hd post)" by blast
    have "c # pre \<noteq> [] \<and> c # cs = (c # pre) @ w @ post \<and> \<not> isWordChar (last (c # pre))"
      using h(1) h(2) by (cases "pre = []") auto
    then show "\<exists>pre post. pre \<noteq> [] \<and> c # cs = pre @ w @ post \<and> \<not> isWordChar (last pre) \<and>
                  (post = [] \<or> \<not> isWordChar (hd post))"
      using h(3) by blast
  next
    assume "\<exists>pre post. pre \<noteq> [] \<and> c # cs = pre @ w @ post \<and> \<not> isWordChar (last pre) \<and>
                  (post = [] \<or> \<not> isWordChar (hd post))"
    then obtain pre post where h: "pre \<noteq> []" "c # cs = pre @ w @ post" "\<not> isWordChar (last pre)"
        "post = [] \<or> \<not> isWordChar (hd post)" by blast
    obtain pre' where p: "pre = c # pre'" using h(1) h(2) by (cases pre) auto
    have "cs = pre' @ w @ post \<and> (if pre' = [] then \<not> isWordChar c else \<not> isWordChar (last pre'))"
      using h(2) h(3) p by (cases "pre' = []") auto
    then show "\<exists>pre post. cs = pre @ w @ post \<and>
                  (if pre = [] then \<not> isWordChar c else \<not> isWordChar (last pre)) \<and>
                  (post = [] \<or> \<not> isWordChar (hd post))"
      using h(4) by blast
  qed
  have split: "(\<exists>pre post. c # cs = pre @ w @ post \<and>
                  (if pre = [] then \<not> prev else \<not> isWordChar (last pre)) \<and>
                  (post = [] \<or> \<not> isWordChar (hd post))) =
               ((\<not> prev \<and> (\<exists>post. c # cs = w @ post \<and> (post = [] \<or> \<not> isWordChar (hd post)))) \<or>
                (\<exists>pre post. pre \<noteq> [] \<and> c # cs = pre @ w @ post \<and> \<not> isWordChar (last pre) \<and>
                  (post = [] \<or> \<not> isWordChar (hd post))))"
    (is "?L = (?A \<or> ?B)")
  proof
    assume ?L
    then obtain pre post where h: "c # cs = pre @ w @ post"
        "if pre = [] then \<not> prev else \<not> isWordChar (last pre)"
        "post = [] \<or> \<not> isWordChar (hd post)" by blast
    show "?A \<or> ?B"
    proof (cases "pre = []")
      case True
      then have ?A using h by auto
      then show ?thesis by blast
    next
      case False
      then have ?B using h by auto
      then show ?thesis by blast
    qed
  next
    assume "?A \<or> ?B"
    then show ?L
    proof
      assume ?A
      then obtain post where "\<not> prev" "c # cs = [] @ w @ post" "post = [] \<or> \<not> isWordChar (hd post)"
        by auto
      then show ?L by (metis (full_types))
    next
      assume ?B
      then obtain pre post where "pre \<noteq> []" "c # cs = pre @ w @ post" "\<not> isWordChar (last pre)"
        "post = [] \<or> \<not> isWordChar (hd post)" by blast
      then show ?L by (metis (full_types))
    qed
  qed
  show ?case
    unfolding split
    using Cons.IH [OF Cons.prems, of "isWordChar c"] here later
    by simp
qed

lemma testWord_whole: "w \<noteq> [] \<Longrightarrow> testWord w False s = hasWholeWord w s"
proof -
  assume w: "w \<noteq> []"
  have edge: "(if pre = [] then \<not> False else \<not> isWordChar (last pre)) =
              (pre = [] \<or> \<not> isWordChar (last pre))" for pre
    by simp
  show ?thesis
    unfolding hasWholeWord_def testWord_iff [OF w, of False s] edge ..
qed

lemma midDayWords_nonempty: "w \<in> set midDayWords \<Longrightarrow> w \<noteq> []"
  by (auto simp add: midDayWords_def)

lemma keywordPeriod_words:
  "keywordPeriod school =
     (if hasWholeWord ''AM'' (toUpperCase school) then ''AM''
      else if hasWholeWord ''PM'' (toUpperCase school) then ''PM''
      else if (\<exists>w \<in> set midDayWords. hasWholeWord w (toUpperCase school)) then ''Mid-day''
      else ''Route'')"
proof -
  have a: "testWord ''AM'' False (toUpperCase school) = hasWholeWord ''AM'' (toUpperCase school)"
    by (rule testWord_whole) simp
  have p: "testWord ''PM'' False (toUpperCase school) = hasWholeWord ''PM'' (toUpperCase school)"
    by (rule testWord_whole) simp
  have m: "(\<exists>w \<in> set midDayWords. testWord w False (toUpperCase school)) =
           (\<exists>w \<in> set midDayWords. hasWholeWord w (toUpperCase school))"
    using testWord_whole midDayWords_nonempty by blast
  show ?thesis unfolding keywordPeriod_def Let_def a p m by simp
qed

text \<open>
  Claim C5 as stated fails in its example of the keyword scan: a school name that
  contains the letters PM need not classify as PM.  In CHAPMAN the letters are not a
  word, so the result is Route; in AM PM COMBINED the word AM is found first, so the
  result is AM.
\<close>

theorem period_pm_substring_counterexample:
  "parsedTimes [] = [] \<and> ''CHAPMAN'' = ''CHA'' @ ''PM'' @ ''AN'' \<and>
   canonicalPeriodV4 [] ''CHAPMAN'' = ''Route'' \<and>
   ''AM PM COMBINED'' = ''AM '' @ ''PM'' @ '' COMBINED'' \<and>
   canonicalPeriodV4 [] ''AM PM COMBINED'' = ''AM''"
  by code_simp

text \<open>
  Claim C5, amended.  The period of a route is decided by the earliest stop time that
  parses, in minutes past midnight: 360 to 570 gives AM, strictly between 570 and 840
  gives Mid-day, 840 to 1080 gives PM.  When no stop time parses, the upper-cased
  school name is scanned for keywords that stand as whole words, with no letter,
  digit or underscore directly before or after: the word AM gives AM; otherwise the
  word PM gives PM; otherwise MIDDAY, MID-DAY or MID and DAY with one white-space
  character between them give Mid-day; otherwise the result is Route.  A first stop at
  6:42 AM gives AM, at 4:15 PM gives PM; without a time that parses, LINCOLN PM gives
  PM and LINCOLN gives Route.
\<close>

theorem period_classification:
  "(parsedTimes sts \<noteq> [] \<and> 360 \<le> Min (set (parsedTimes sts)) \<and> Min (set (parsedTimes sts)) \<le> 570
      \<longrightarrow> canonicalPeriodV4 sts school = ''AM'') \<and>
   (parsedTimes sts \<noteq> [] \<and> 570 < Min (set (parsedTimes sts)) \<and> Min (set (parsedTimes sts)) < 840
      \<longrightarrow> canonicalPeriodV4 sts school = ''Mid-day'') \<and>
   (parsedTimes sts \<noteq> [] \<and> 840 \<le> Min (set (parsedTimes sts)) \<and> Min (set (parsedTimes sts)) \<le> 1080
      \<longrightarrow> canonicalPeriodV4 sts school = ''PM'') \<and>
   (parsedTimes sts = [] \<longrightarrow>
      canonicalPeriodV4 sts school =
        (if hasWholeWord ''AM'' (toUpperCase school) then ''AM''
         else if hasWholeWord ''PM'' (toUpperCase school) then ''PM''
         else if (\<exists>w \<in> set midDayWords. hasWholeWord w (toUpperCase school)) then ''Mid-day''
         else ''Route'')) \<and>
   (parsedTimes sts = [] \<longrightarrow> canonicalPeriodV4 sts school = keywordPeriod school) \<and>
   keywordPeriod school \<in> {''AM'', ''PM'', ''Mid-day'', ''Route''} \<and>
   canonicalPeriodV4 [mkStop ''6:42 AM'' loc] school = ''AM'' \<and>
   canonicalPeriodV4 [mkStop ''4:15 PM'' loc] school = ''PM'' \<and>
   canonicalPeriodV4 [mkStop ''see driver'' loc] ''LINCOLN PM'' = ''PM'' \<and>
   canonicalPeriodV4 [mkStop ''see driver'' loc] ''LINCOLN'' = ''Route''"
proof -
  define m where "m = Min (set (parsedTimes sts))"
  have unparsed: "parseTimeMinsV4 ''see driver'' = None" by code_simp
  have best: "parsedTimes sts \<noteq> [] \<Longrightarrow> bestTime None sts = Some m"
    by (simp add: m_def bestTime_Min)
  have am: "parsedTimes sts \<noteq> [] \<and> 360 \<le> m \<and> m \<le> 570 \<longrightarrow> canonicalPeriodV4 sts school = ''AM''"
    using best canonicalPeriod_best [of sts m school] by simp
  have mid: "parsedTimes sts \<noteq> [] \<and> 570 < m \<and> m < 840 \<longrightarrow> canonicalPeriodV4 sts school = ''Mid-day''"
    using best canonicalPeriod_best [of sts m school] by simp
  have pm: "parsedTimes sts \<noteq> [] \<and> 840 \<le> m \<and> m \<le> 1080 \<longrightarrow> canonicalPeriodV4 sts school = ''PM''"
    using best canonicalPeriod_best [of sts m school] by simp
  have b: "parsedTimes sts = [] \<longrightarrow> canonicalPeriodV4 sts school = keywordPeriod school"
    by (simp add: canonicalPeriodV4_def bestTime_None)
  have bw: "parsedTimes sts = [] \<longrightarrow>
      canonicalPeriodV4 sts school =
        (if hasWholeWord ''AM'' (toUpperCase school) then ''AM''
         else if hasWholeWord ''PM'' (toUpperCase school) then ''PM''
         else if (\<exists>w \<in> set midDayWords. hasWholeWord w (toUpperCase school)) then ''Mid-day''
         else ''Route'')"
    using b keywordPeriod_words [of school] by simp
  have c: "canonicalPeriodV4 [mkStop ''6:42 AM'' loc] school = ''AM''"
    by (simp add: canonicalPeriodV4_def mkStop_def parse_642)
  have d: "canonicalPeriodV4 [mkStop ''4:15 PM'' loc] school = ''PM''"
    by (simp add: canonicalPeriodV4_def mkStop_def parse_415)
  have e: "canonicalPeriodV4 [mkStop ''see driver'' loc] ''LINCOLN PM'' = ''PM''"
    by (simp add: canonicalPeriodV4_def mkStop_def unparsed kw_pm)
  have f: "canonicalPeriodV4 [mkStop ''see driver'' loc] ''LINCOLN'' = ''Route''"
    by (simp add: canonicalPeriodV4_def mkStop_def unparsed kw_route)
  show ?thesis
    unfolding m_def [symmetric]
    using am mid pm b bw c d e f keywordPeriod_range [of school] by blast
qed

theorem period_classification_witness:
  "canonicalPeriodV4 [mkStop ''8:05'' ''A ST'', mkStop ''6 am'' ''B ST''] ''X'' = ''AM'' \<and>
   canonicalPeriodV4 [mkStop ''11:30 AM'' ''A ST'', mkStop ''noon'' ''B ST''] ''X'' = ''Mid-day'' \<and>
   canonicalPeriodV4 [mkStop ''6:00 PM'' ''A ST'', mkStop ''2:00 PM'' ''B ST''] ''X'' = ''PM'' \<and>
   parsedTimes [mkStop ''noon'' ''A ST''] = [] \<and>
   \<not> hasWholeWord ''AM'' (toUpperCase ''Oakland Mills pm'') \<and>
   hasWholeWord ''PM'' (toUpperCase ''Oakland Mills pm'') \<and>
   canonicalPeriodV4 [mkStop ''noon'' ''A ST''] ''Oakland Mills pm'' = ''PM'' \<and>
   \<not> hasWholeWord ''AM'' (toUpperCase ''Chapman'') \<and> \<not> hasWholeWord ''PM'' (toUpperCase ''Chapman'') \<and>
   canonicalPeriodV4 [mkStop ''noon'' ''A ST''] ''Chapman'' = ''Route'' \<and>
   canonicalPeriodV4 [mkStop ''noon'' ''A ST''] ''OAKLAND MILLS MID-DAY'' = ''Mid-day''"
proof -
  have p1: "parsedTimes [mkStop ''8:05'' ''A ST'', mkStop ''6 am'' ''B ST''] = [485, 360]" by code_simp
  have p2: "parsedTimes [mkStop ''11:30 AM'' ''A ST'', mkStop ''noon'' ''B ST''] = [690]" by code_simp
  have p3: "parsedTimes [mkStop ''6:00 PM'' ''A ST'', mkStop ''2:00 PM'' ''B ST''] = [1080, 840]" by code_simp
  have p4: "parsedTimes [mkStop ''noon'' ''A ST''] = []" by code_simp
  have ma: "\<not> testWord ''AM'' False (toUpperCase ''OAKLAND MILLS MID-DAY'')" by code_simp
  have mp: "\<not> testWord ''PM'' False (toUpperCase ''OAKLAND MILLS MID-DAY'')" by code_simp
  have mm: "\<exists>w \<in> set midDayWords. testWord w False (toUpperCase ''OAKLAND MILLS MID-DAY'')" by code_simp
  have ta: "\<not> testWord ''AM'' False (toUpperCase ''Oakland Mills pm'')" by code_simp
  have tp: "testWord ''PM'' False (toUpperCase ''Oakland Mills pm'')" by code_simp
  have ca: "\<not> testWord ''AM'' False (toUpperCase ''Chapman'')" by code_simp
  have cp: "\<not> testWord ''PM'' False (toUpperCase ''Chapman'')" by code_simp
  have cm: "\<not> (\<exists>w \<in> set midDayWords. testWord w False (toUpperCase ''Chapman''))" by code_simp
  have ha: "\<not> hasWholeWord ''AM'' (toUpperCase ''Oakland Mills pm'')"
    using ta testWord_whole [of "''AM''" "toUpperCase ''Oakland Mills pm''"] by simp
  have hp: "hasWholeWord ''PM'' (toUpperCase ''Oakland Mills pm'')"
    using tp testWord_whole [of "''PM''" "toUpperCase ''Oakland Mills pm''"] by simp
  have ha2: "\<not> hasWholeWord ''AM'' (toUpperCase ''Chapman'')"
    using ca testWord_whole [of "''AM''" "toUpperCase ''Chapman''"] by simp
  have hp2: "\<not> hasWholeWord ''PM'' (toUpperCase ''Chapman'')"
    using cp testWord_whole [of "''PM''" "toUpperCase ''Chapman''"] by simp
  have hm2: "\<not> (\<exists>w \<in> set midDayWords. hasWholeWord w (toUpperCase ''Chapman''))"
    using cm testWord_whole midDayWords_nonempty by blast
  have ha3: "\<not> hasWholeWord ''AM'' (toUpperCase ''OAKLAND MILLS MID-DAY'')"
    using ma testWord_whole [of "''AM''" "toUpperCase ''OAKLAND MILLS MID-DAY''"] by simp
  have hp3: "\<not> hasWholeWord ''PM'' (toUpperCase ''OAKLAND MILLS MID-DAY'')"
    using mp testWord_whole [of "''PM''" "toUpperCase ''OAKLAND MILLS MID-DAY''"] by simp
  have hm3: "\<exists>w \<in> set midDayWords. hasWholeWord w (toUpperCase ''OAKLAND MILLS MID-DAY'')"
    using mm testWord_whole midDayWords_nonempty by blast
  have w1: "canonicalPeriodV4 [mkStop ''8:05'' ''A ST'', mkStop ''6 am'' ''B ST''] ''X'' = ''AM''"
    using period_classification [of "[mkStop ''8:05'' ''A ST'', mkStop ''6 am'' ''B ST'']" "''X''"]
    unfolding p1 by simp
  have w2: "canonicalPeriodV4 [mkStop ''11:30 AM'' ''A ST'', mkStop ''noon'' ''B ST''] ''X'' = ''Mid-day''"
    using period_classification [of "[mkStop ''11:30 AM'' ''A ST'', mkStop ''noon'' ''B ST'']" "''X''"]
    unfolding p2 by simp
  have w3: "canonicalPeriodV4 [mkStop ''6:00 PM'' ''A ST'', mkStop ''2:00 PM'' ''B ST''] ''X'' = ''PM''"
    using period_classification [of "[mkStop ''6:00 PM'' ''A ST'', mkStop ''2:00 PM'' ''B ST'']" "''X''"]
    unfolding p3 by simp
  have w4: "canonicalPeriodV4 [mkStop ''noon'' ''A ST''] ''OAKLAND MILLS MID-DAY'' = ''Mid-day''"
    using period_classification [of "[mkStop ''noon'' ''A ST'']" "''OAKLAND MILLS MID-DAY''"] p4 ha3 hp3 hm3
    by simp
  have w5: "canonicalPeriodV4 [mkStop ''noon'' ''A ST''] ''Oakland Mills pm'' = ''PM''"
    using period_classification [of "[mkStop ''noon'' ''A ST'']" "''Oakland Mills pm''"] p4 ha hp
    by simp
  have w6: "canonicalPeriodV4 [mkStop ''noon'' ''A ST''] ''Chapman'' = ''Route''"
    using period_classification [of "[mkStop ''noon'' ''A ST'']" "''Chapman''"] p4 ha2 hp2 hm2
    by simp
  show ?thesis using w1 w2 w3 w4 w5 w6 p4 ha hp ha2 hp2 by simp
qed



section \<open>Properties of the cleaning step\<close>

lemma cleanStops_keys:
  "distinct (map stopKey (cleanStops school seen ss)) \<and>
   set (map stopKey (cleanStops school seen ss)) \<inter> set seen = {}"
proof (induction ss arbitrary: seen)
  case Nil
  show ?case by simp
next
  case (Cons s ss)
  show ?case
    using Cons.IH [of seen]
      Cons.IH [of "dedupeKey (normalizeTimeV4 (time s)) (cleanLocationV4 (location s)) # seen"]
    by (auto simp add: Let_def stopKey_def)
qed

lemma cleanStops_subseq: "subseq (cleanStops school seen ss) (candidateStops school ss)"
proof (induction ss arbitrary: seen)
  case Nil
  show ?case by simp
next
  case (Cons s ss)
  show ?case
    using Cons.IH [of seen]
      Cons.IH [of "dedupeKey (normalizeTimeV4 (time s)) (cleanLocationV4 (location s)) # seen"]
    by (auto simp add: Let_def)
qed

lemma cleanStops_find:
  "find (\<lambda>s. stopKey s = k) (cleanStops school seen ss) =
     (if k \<in> set seen then None else find (\<lambda>s. stopKey s = k) (candidateStops school ss))"
proof (induction ss arbitrary: seen)
  case Nil
  show ?case by simp
next
  case (Cons s ss)
  show ?case
    using Cons.IH [of seen]
      Cons.IH [of "dedupeKey (normalizeTimeV4 (time s)) (cleanLocationV4 (location s)) # seen"]
    by (auto simp add: Let_def stopKey_def)
qed

lemma stopKey_pair:
  "toLowerCase (time a) = toLowerCase (time b) \<Longrightarrow>
   toLowerCase (location a) = toLowerCase (location b) \<Longrightarrow> stopKey a = stopKey b"
  by (simp add: stopKey_def dedupeKey_def toLowerCase_def)

text \<open>
  Claim C7.  In the stop list of a cleaned route no two stops have the same key, the
  lower-cased text of normalised time, a bar and cleaned location; in particular no two
  stops agree on time and on location up to letter case.  The list is a subsequence
  of the normalised stops that pass the filters, so the order of the survivors is
  kept, and for every key the stop that survives is the first stop with that key.
\<close>

theorem cleaned_stops_deduplicated:
  "(\<forall>i j. i < j \<and> j < length (stops (cleanRouteV4 route fs fb)) \<longrightarrow>
       stopKey (stops (cleanRouteV4 route fs fb) ! i) \<noteq> stopKey (stops (cleanRouteV4 route fs fb) ! j) \<and>
       \<not> (toLowerCase (time (stops (cleanRouteV4 route fs fb) ! i)) =
            toLowerCase (time (stops (cleanRouteV4 route fs fb) ! j)) \<and>
          toLowerCase (location (stops (cleanRouteV4 route fs fb) ! i)) =
            toLowerCase (location (stops (cleanRouteV4 route fs fb) ! j)))) \<and>
   subseq (stops (cleanRouteV4 route fs fb)) (candidateStops (cleanSchool route fs) (stops route)) \<and>
   (\<forall>k. find (\<lambda>s. stopKey s = k) (stops (cleanRouteV4 route fs fb)) =
        find (\<lambda>s. stopKey s = k) (candidateStops (cleanSchool route fs) (stops route)))"
proof -
  define out where "out = stops (cleanRouteV4 route fs fb)"
  have out: "out = cleanStops (cleanSchool route fs) [] (stops route)"
    by (simp add: out_def cleanRouteV4_def Let_def)
  have d: "distinct (map stopKey out)"
    using cleanStops_keys [of "cleanSchool route fs" "[]" "stops route"] out by simp
  have keys: "stopKey (out ! i) \<noteq> stopKey (out ! j)" if "i < j" "j < length out" for i j
    using d that by (simp add: distinct_conv_nth)
  have pairs: "\<not> (toLowerCase (time (out ! i)) = toLowerCase (time (out ! j)) \<and>
                  toLowerCase (location (out ! i)) = toLowerCase (location (out ! j)))"
    if "i < j" "j < length out" for i j
    using keys [OF that] stopKey_pair [of "out ! i" "out ! j"] by blast
  have s: "subseq out (candidateStops (cleanSchool route fs) (stops route))"
    unfolding out by (rule cleanStops_subseq)
  have f: "find (\<lambda>s. stopKey s = k) out =
           find (\<lambda>s. stopKey s = k) (candidateStops (cleanSchool route fs) (stops route))" for k
    unfolding out by (simp add: cleanStops_find)
  show ?thesis
    unfolding out_def [symmetric] using keys pairs s f by blast
qed

theorem cleaned_stops_deduplicated_witness:
  "stops (cleanRouteV4 demoRoute [] []) = [mkStop ''6:42 AM'' ''123 Main St'', mkStop ''6:50'' ''9 Oak Ct''] \<and>
   candidateStops (cleanSchool demoRoute []) (stops demoRoute) =
     [mkStop ''6:42 AM'' ''123 Main St'', mkStop ''6:50'' ''9 Oak Ct'', mkStop ''6:42 AM'' ''123 MAIN st''] \<and>
   (0::nat) < 1 \<and> 1 < length (stops (cleanRouteV4 demoRoute [] [])) \<and>
   stopKey (stops (cleanRouteV4 demoRoute [] []) ! 0) \<noteq> stopKey (stops (cleanRouteV4 demoRoute [] []) ! 1) \<and>
   find (\<lambda>s. stopKey s = ''6:42 am|123 main st'') (stops (cleanRouteV4 demoRoute [] [])) =
     Some (mkStop ''6:42 AM'' ''123 Main St'')"
proof -
  have e1: "stops (cleanRouteV4 demoRoute [] []) = [mkStop ''6:42 AM'' ''123 Main St'', mkStop ''6:50'' ''9 Oak Ct'']"
    by code_simp
  have e2: "candidateStops (cleanSchool demoRoute []) (stops demoRoute) =
     [mkStop ''6:42 AM'' ''123 Main St'', mkStop ''6:50'' ''9 Oak Ct'', mkStop ''6:42 AM'' ''123 MAIN st'']"
    by code_simp
  have e3: "find (\<lambda>s. stopKey s = ''6:42 am|123 main st'')
      [mkStop ''6:42 AM'' ''123 Main St'', mkStop ''6:50'' ''9 Oak Ct'', mkStop ''6:42 AM'' ''123 MAIN st''] =
     Some (mkStop ''6:42 AM'' ''123 Main St'')"
    by code_simp
  have t: "(\<forall>i j. i < j \<and> j < length (stops (cleanRouteV4 demoRoute [] [])) \<longrightarrow>
       stopKey (stops (cleanRouteV4 demoRoute [] []) ! i) \<noteq> stopKey (stops (cleanRouteV4 demoRoute [] []) ! j))"
    and f: "\<forall>k. find (\<lambda>s. stopKey s = k) (stops (cleanRouteV4 demoRoute [] [])) =
        find (\<lambda>s. stopKey s = k) (candidateStops (cleanSchool demoRoute []) (stops demoRoute))"
    using cleaned_stops_deduplicated [of demoRoute "[]" "[]"] by blast+
  have l: "(0::nat) < 1 \<and> 1 < length (stops (cleanRouteV4 demoRoute [] []))"
    by (simp add: e1)
  from t l have k: "stopKey (stops (cleanRouteV4 demoRoute [] []) ! 0) \<noteq> stopKey (stops (cleanRouteV4 demoRoute [] []) ! 1)"
    by blast
  from f have "find (\<lambda>s. stopKey s = ''6:42 am|123 main st'') (stops (cleanRouteV4 demoRoute [] [])) =
        find (\<lambda>s. stopKey s = ''6:42 am|123 main st'') (candidateStops (cleanSchool demoRoute []) (stops demoRoute))"
    by blast
  then have f1: "find (\<lambda>s. stopKey s = ''6:42 am|123 main st'') (stops (cleanRouteV4 demoRoute [] [])) =
     Some (mkStop ''6:42 AM'' ''123 Main St'')"
    unfolding e2 e3 .
  show ?thesis using e1 e2 l k f1 by blast
qed

section \<open>Properties of the phone normaliser\<close>

lemma keepFirstSeen_remdups:
  "keepFirstSeen seen xs = rev (remdups (rev (filter (\<lambda>s. s \<noteq> [] \<and> s \<notin> set seen) xs)))"
proof (induction xs arbitrary: seen)
  case Nil
  show ?case by simp
next
  case (Cons x xs)
  have r: "rev (remdups (rev ys @ [x])) = x # rev (remdups (rev (filter (\<lambda>s. s \<noteq> x) ys)))" for ys :: "string list"
  proof (induction ys rule: rev_induct)
    case Nil
    show ?case by simp
  next
    case (snoc y ys)
    then show ?case by (auto simp add: remdups_append2) 
  qed
  have f: "filter (\<lambda>s. s \<noteq> x) (filter (\<lambda>s. s \<noteq> [] \<and> s \<notin> set seen) xs) =
           filter (\<lambda>s. s \<noteq> [] \<and> s \<notin> set (x # seen)) xs"
    by (induction xs) auto
  show ?case using Cons.IH [of seen] Cons.IH [of "x # seen"] r [of "filter (\<lambda>s. s \<noteq> [] \<and> s \<notin> set seen) xs"] f
    by auto
qed

lemma keepPhoneChars_set: "c \<in> set (keepPhoneChars l) \<Longrightarrow> isDigit c \<or> c = CHR ''x'' \<or> c = CHR ''X''"
  by (auto simp add: keepPhoneChars_def)

lemma formatPhone_set: "c \<in> set (formatPhone s) \<Longrightarrow> c \<in> set s \<or> c = CHR ''-''"
  by (auto simp add: formatPhone_def split: if_splits dest: in_set_takeD in_set_dropD)

lemma dropCountryCode_set: "c \<in> set (dropCountryCode s) \<Longrightarrow> c \<in> set s"
  by (auto simp add: dropCountryCode_def split: if_splits dest: in_set_dropD)

lemma normalizePhoneLine_chars:
  "c \<in> set (normalizePhoneLine l) \<Longrightarrow> isDigit c \<or> c = CHR ''x'' \<or> c = CHR ''X'' \<or> c = CHR ''-''"
  unfolding normalizePhoneLine_def
  using formatPhone_set dropCountryCode_set keepPhoneChars_set by blast

lemma normalizePhoneLine_10:
  "length (keepPhoneChars l) = 10 \<Longrightarrow>
   normalizePhoneLine l = take 3 (keepPhoneChars l) @ ''-'' @ take 3 (drop 3 (keepPhoneChars l)) @ ''-'' @ drop 6 (keepPhoneChars l)"
  by (simp add: normalizePhoneLine_def dropCountryCode_def formatPhone_def)

lemma normalizePhoneLine_11:
  "length (keepPhoneChars l) = 11 \<Longrightarrow> take 1 (keepPhoneChars l) = ''1'' \<Longrightarrow>
   normalizePhoneLine l = take 3 (drop 1 (keepPhoneChars l)) @ ''-'' @ take 3 (drop 4 (keepPhoneChars l)) @ ''-'' @ drop 7 (keepPhoneChars l)"
  by (simp add: normalizePhoneLine_def dropCountryCode_def formatPhone_def)

lemma normalizePhoneLine_short:
  "length (keepPhoneChars l) < 10 \<Longrightarrow> normalizePhoneLine l = keepPhoneChars l"
  by (simp add: normalizePhoneLine_def dropCountryCode_def formatPhone_def)

lemma normalizePhoneLine_long:
  "10 \<le> length (dropCountryCode (keepPhoneChars l)) \<Longrightarrow>
   normalizePhoneLine l = take 3 (dropCountryCode (keepPhoneChars l)) @ ''-'' @
      take 3 (drop 3 (dropCountryCode (keepPhoneChars l))) @ ''-'' @ take 4 (drop 6 (dropCountryCode (keepPhoneChars l)))"
  by (simp add: normalizePhoneLine_def formatPhone_def)

lemma normalizePhoneLine_fun:
  "(\<lambda>x. formatPhone (dropCountryCode (keepPhoneChars x))) = normalizePhoneLine"
  by (rule ext) (simp add: normalizePhoneLine_def)

lemma normalizePhones_lines:
  "raw \<noteq> [] \<Longrightarrow> normalizePhonesV3 raw =
     joinLines (rev (remdups (rev (filter (\<lambda>s. s \<noteq> []) (map normalizePhoneLine (splitLines raw))))))"
  by (simp add: normalizePhonesV3_def keepFirstSeen_remdups comp_def normalizePhoneLine_fun)

text \<open>
  Claim C6 as stated fails: the normaliser keeps the letters x and X, so a result can
  hold a character that is not a digit, and it formats every result of ten or more
  characters, not only those of exactly ten, from its first ten characters.
\<close>

theorem phone_keeps_letter_x_counterexample:
  "normalizePhonesV3 ''555-0100 x2'' = ''5550100x2'' \<and>
   CHR ''x'' \<in> set (normalizePhonesV3 ''555-0100 x2'') \<and> \<not> isDigit (CHR ''x'') \<and>
   length (keepPhoneChars ''410555010099'') = 12 \<and>
   normalizePhonesV3 ''410555010099'' = ''410-555-0100''"
  by code_simp

text \<open>
  Claim C6, amended.  \<open>normalizePhonesV3\<close> normalises each line of the raw field:
  it keeps the digits and the letters x and X and drops every other character; of an
  11-character result that begins with 1 it drops the 1; a result of ten or more
  characters is written as the groups of three, three and four of its first ten
  characters, joined by hyphens, so a result of exactly ten digits becomes
  XXX-XXX-XXXX; a shorter result is left as it is.  Empty results are dropped, and of
  equal results only the first is kept, in the order of first appearance.  The input
  1-410-555-0100 gives 410-555-0100.
\<close>

theorem phone_normalization:
  "(raw \<noteq> [] \<longrightarrow> normalizePhonesV3 raw =
      joinLines (rev (remdups (rev (filter (\<lambda>s. s \<noteq> []) (map normalizePhoneLine (splitLines raw))))))) \<and>
   normalizePhonesV3 [] = [] \<and>
   (\<forall>c \<in> set (keepPhoneChars l). isDigit c \<or> c = CHR ''x'' \<or> c = CHR ''X'') \<and>
   (\<forall>c \<in> set (normalizePhoneLine l). isDigit c \<or> c = CHR ''x'' \<or> c = CHR ''X'' \<or> c = CHR ''-'') \<and>
   (length (keepPhoneChars l) = 11 \<and> take 1 (keepPhoneChars l) = ''1'' \<longrightarrow>
      normalizePhoneLine l =
        take 3 (drop 1 (keepPhoneChars l)) @ ''-'' @ take 3 (drop 4 (keepPhoneChars l)) @ ''-'' @
        drop 7 (keepPhoneChars l)) \<and>
   (length (keepPhoneChars l) = 10 \<longrightarrow>
      normalizePhoneLine l =
        take 3 (keepPhoneChars l) @ ''-'' @ take 3 (drop 3 (keepPhoneChars l)) @ ''-'' @
        drop 6 (keepPhoneChars l)) \<and>
   (10 \<le> length (dropCountryCode (keepPhoneChars l)) \<longrightarrow>
      normalizePhoneLine l =
        take 3 (dropCountryCode (keepPhoneChars l)) @ ''-'' @
        take 3 (drop 3 (dropCountryCode (keepPhoneChars l))) @ ''-'' @
        take 4 (drop 6 (dropCountryCode (keepPhoneChars l)))) \<and>
   (length (keepPhoneChars l) < 10 \<longrightarrow> normalizePhoneLine l = keepPhoneChars l) \<and>
   normalizePhonesV3 ''1-410-555-0100'' = ''410-555-0100''"
proof -
  have ex: "normalizePhonesV3 ''1-410-555-0100'' = ''410-555-0100''"
    by code_simp
  have e: "normalizePhonesV3 [] = []"
    by (simp add: normalizePhonesV3_def)
  show ?thesis
    using normalizePhones_lines [of raw] e ex keepPhoneChars_set [of _ l] normalizePhoneLine_chars [of _ l]
      normalizePhoneLine_11 [of l] normalizePhoneLine_10 [of l] normalizePhoneLine_long [of l]
      normalizePhoneLine_short [of l]
    by blast
qed

theorem phone_normalization_witness:
  "demoPhones \<noteq> [] \<and>
   normalizePhonesV3 demoPhones = ''410-555-0100'' @ [CHR 0x0A] @ ''5550100x2'' \<and>
   length (keepPhoneChars ''1-410-555-0100'') = 11 \<and> take 1 (keepPhoneChars ''1-410-555-0100'') = ''1'' \<and>
   normalizePhoneLine ''1-410-555-0100'' = ''410-555-0100'' \<and>
   length (keepPhoneChars ''(410) 555-0100'') = 10 \<and>
   normalizePhoneLine ''(410) 555-0100'' = ''410-555-0100'' \<and>
   length (keepPhoneChars ''555-0100 x2'') < 10 \<and>
   normalizePhoneLine ''555-0100 x2'' = ''5550100x2''"
proof -
  have n: "demoPhones \<noteq> []"
    by (simp add: demoPhones_def)
  have l: "map normalizePhoneLine (splitLines demoPhones) = [''410-555-0100'', ''410-555-0100'', ''5550100x2'']"
    by code_simp
  have k1: "keepPhoneChars ''1-410-555-0100'' = ''14105550100''"
    by code_simp
  have k2: "keepPhoneChars ''(410) 555-0100'' = ''4105550100''"
    by code_simp
  have k3: "keepPhoneChars ''555-0100 x2'' = ''5550100x2''"
    by code_simp
  have a: "normalizePhonesV3 demoPhones = ''410-555-0100'' @ [CHR 0x0A] @ ''5550100x2''"
    using phone_normalization [of demoPhones] n unfolding l by simp
  have b: "normalizePhoneLine ''1-410-555-0100'' = ''410-555-0100''"
    using phone_normalization [of "[]" "''1-410-555-0100''"] unfolding k1 by simp
  have c: "normalizePhoneLine ''(410) 555-0100'' = ''410-555-0100''"
    using phone_normalization [of "[]" "''(410) 555-0100''"] unfolding k2 by simp
  have d: "normalizePhoneLine ''555-0100 x2'' = ''5550100x2''"
    using phone_normalization [of "[]" "''555-0100 x2''"] unfolding k3 by simp
  show ?thesis using n a b c d by (simp add: k1 k2 k3)
qed

section \<open>Properties of the geocoding cache\<close>

lemma cacheGrows_refl: "cacheGrows c c"
  by (simp add: cacheGrows_def)

lemma cacheGrows_trans: "cacheGrows c c' \<Longrightarrow> cacheGrows c' c'' \<Longrightarrow> cacheGrows c c''"
  unfolding cacheGrows_def by metis

lemma cacheGrows_put:
  "cacheHit c key = None \<Longrightarrow> cacheGrows c (c(key \<mapsto> Coord a b))"
  by (auto simp add: cacheGrows_def cacheHit_def split: option.splits cacheval.splits)

lemma cacheGrows_hit: "cacheGrows c c' \<Longrightarrow> cacheHit c k \<noteq> None \<Longrightarrow> cacheHit c' k \<noteq> None"
  by (auto simp add: cacheGrows_def cacheHit_def split: option.splits cacheval.splits)

lemma matchedKeys_append:
  "matchedKeys env n (tr @ ext) = matchedKeys env n tr @ matchedKeys env (n + length tr) ext"
  by (induction env n tr rule: matchedKeys.induct) auto

lemma noRepeat_seen_cong:
  "set seen = set seen' \<Longrightarrow> noRepeatAfterMatch env n seen tr = noRepeatAfterMatch env n seen' tr"
proof (induction env n seen tr arbitrary: seen' rule: noRepeatAfterMatch.induct)
  case (2 env n seen q cs)
  show ?case
    using 2(2) 2(1) [of "if isMatch (geocode env n q) then toLowerCase q # seen' else seen'"]
    by auto
qed simp_all

lemma noRepeat_append:
  "noRepeatAfterMatch env n seen (tr @ ext) =
     (noRepeatAfterMatch env n seen tr \<and>
      noRepeatAfterMatch env (n + length tr) (matchedKeys env n tr @ seen) ext)"
proof (induction env n seen tr rule: noRepeatAfterMatch.induct)
  case (1 env n seen)
  show ?case by simp
next
  case (2 env n seen q cs)
  have c: "noRepeatAfterMatch env m (matchedKeys env (Suc n) cs @ toLowerCase q # seen) ext =
           noRepeatAfterMatch env m (toLowerCase q # matchedKeys env (Suc n) cs @ seen) ext" for m
    by (rule noRepeat_seen_cong) auto
  show ?case using 2 c by auto
qed auto

lemma retry_geocode:
  "retryLoop env (\<lambda>t. (geocode env (length t) q, t @ [Geocode q])) b e i k tr = (res, tr') \<Longrightarrow>
   \<exists>ext. tr' = tr @ ext \<and>
         set (matchedKeys env (length tr) ext) \<subseteq> (if isMatch res then {toLowerCase q} else {}) \<and>
         (toLowerCase q \<notin> set seen \<longrightarrow> noRepeatAfterMatch env (length tr) seen ext)"
proof (induction k arbitrary: e i tr res tr')
  case 0
  then show ?case by (simp add: isMatch_def)
next
  case (Suc k)
  show ?case
  proof (cases "geocode env (length tr) q")
    case (Inr v)
    then have "res = Inr v" "tr' = tr @ [Geocode q]" using Suc.prems by auto
    then show ?thesis using Inr by auto
  next
    case (Inl e')
    show ?thesis
    proof (cases "k = 0")
      case True
      then have "res = Inl e'" "tr' = tr @ [Geocode q]" using Suc.prems Inl by auto
      then show ?thesis using Inl by (auto simp add: isMatch_def)
    next
      case False
      define tr2 where "tr2 = tr @ [Geocode q, Sleep (b * 2 ^ i + jitter env (Suc (length tr)))]"
      have "retryLoop env (\<lambda>t. (geocode env (length t) q, t @ [Geocode q])) b e' (Suc i) k tr2 = (res, tr')"
        using Suc.prems Inl False by (simp add: tr2_def)
      from Suc.IH [OF this] obtain ext where
        ext: "tr' = tr2 @ ext"
          "set (matchedKeys env (length tr2) ext) \<subseteq> (if isMatch res then {toLowerCase q} else {})"
          "toLowerCase q \<notin> set seen \<longrightarrow> noRepeatAfterMatch env (length tr2) seen ext"
        by blast
      have nm: "\<not> isMatch (geocode env (length tr) q)" using Inl by (simp add: isMatch_def)
      have l: "length tr2 = Suc (Suc (length tr))" by (simp add: tr2_def)
      show ?thesis
        apply (rule exI [of _ "[Geocode q, Sleep (b * 2 ^ i + jitter env (Suc (length tr)))] @ ext"])
        using ext nm l by (simp add: tr2_def)
    qed
  qed
qed

lemma matchedCached_notin:
  "matchedCached env run \<Longrightarrow> cacheHit (geocodeCache (pstate run)) k = None \<Longrightarrow>
   k \<notin> set (matchedKeys env 0 (calls run))"
  by (auto simp add: matchedCached_def list_all_iff)

lemma geocodeStop_hit:
  "cacheHit (geocodeCache (pstate run)) (toLowerCase (geocodeQuery stop)) = Some (a, b) \<Longrightarrow>
   geocodeStop env stop run = (Inr (stop\<lparr>latitude := Some a, longitude := Some b\<rparr>), run)"
  by (simp add: geocodeStop_def Let_def)

lemma geocodeStop_inv:
  assumes "geocodeStop env stop run = (res, run')"
  shows "cacheGrows (geocodeCache (pstate run)) (geocodeCache (pstate run')) \<and>
         (matchedCached env run \<and> noRepeatAfterMatch env 0 [] (calls run) \<longrightarrow>
          matchedCached env run' \<and> noRepeatAfterMatch env 0 [] (calls run'))"
proof (cases "cacheHit (geocodeCache (pstate run)) (toLowerCase (geocodeQuery stop))")
  case (Some p)
  then have "run' = run" using assms by (cases p) (simp add: geocodeStop_def Let_def)
  then show ?thesis by (simp add: cacheGrows_refl)
next
  case None
  define q where "q = geocodeQuery stop"
  define key where "key = toLowerCase q"
  obtain r tr where w: "withRetryV4 env (\<lambda>t. (geocode env (length t) q, t @ [Geocode q])) 3 500 (calls run) = (r, tr)"
    by (cases "withRetryV4 env (\<lambda>t. (geocode env (length t) q, t @ [Geocode q])) 3 500 (calls run)")
  have miss: "cacheHit (geocodeCache (pstate run)) key = None"
    using None by (simp add: key_def q_def)
  have rl: "retryLoop env (\<lambda>t. (geocode env (length t) q, t @ [Geocode q])) 500 NullError 0 3 (calls run) = (r, tr)"
    using w by (simp add: withRetryV4_def)
  from retry_geocode [OF rl, of "matchedKeys env 0 (calls run)"] obtain ext where
    ext: "tr = calls run @ ext"
      "set (matchedKeys env (length (calls run)) ext) \<subseteq> (if isMatch r then {key} else {})"
      "key \<notin> set (matchedKeys env 0 (calls run)) \<longrightarrow>
         noRepeatAfterMatch env (length (calls run)) (matchedKeys env 0 (calls run)) ext"
    unfolding key_def by blast
  have nr: "matchedCached env run \<Longrightarrow> noRepeatAfterMatch env 0 [] (calls run) \<Longrightarrow>
            noRepeatAfterMatch env 0 [] (tr @ [Sleep 150])"
    using ext matchedCached_notin [OF _ miss] by (simp add: noRepeat_append)
  have mk: "matchedKeys env 0 (tr @ [Sleep 150]) = matchedKeys env 0 (calls run) @ matchedKeys env (length (calls run)) ext"
    using ext(1) by (simp add: matchedKeys_append)
  show ?thesis
  proof (cases r)
    case (Inl e)
    then have r': "run' = run\<lparr>calls := tr\<rparr>"
      using assms None w by (simp add: geocodeStop_def Let_def q_def)
    have e: "matchedKeys env (length (calls run)) ext = []"
      using ext(2) Inl by (simp add: isMatch_def)
    have "matchedCached env run \<Longrightarrow> noRepeatAfterMatch env 0 [] (calls run) \<Longrightarrow>
            noRepeatAfterMatch env 0 [] tr"
      using nr by (simp add: noRepeat_append)
    then show ?thesis using r' e ext(1)
      by (simp add: cacheGrows_refl matchedCached_def matchedKeys_append)
  next
    case (Inr v)
    show ?thesis
    proof (cases v)
      case None
      then have r': "run' = run\<lparr>calls := tr @ [Sleep 150]\<rparr>"
        using assms \<open>cacheHit (geocodeCache (pstate run)) (toLowerCase (geocodeQuery stop)) = None\<close> w Inr
        by (simp add: geocodeStop_def Let_def q_def)
      have e: "matchedKeys env (length (calls run)) ext = []"
        using ext(2) Inr None by (simp add: isMatch_def)
      show ?thesis using r' e nr mk
        by (simp add: cacheGrows_refl matchedCached_def)
    next
      case (Some p)
      obtain a b where p: "p = (a, b)" by (cases p)
      have r': "run' = putCache key (Coord a b) (run\<lparr>calls := tr @ [Sleep 150]\<rparr>)"
        using assms \<open>cacheHit (geocodeCache (pstate run)) (toLowerCase (geocodeQuery stop)) = None\<close> w Inr Some p
        by (simp add: geocodeStop_def Let_def q_def key_def)
      have c: "geocodeCache (pstate run') = (geocodeCache (pstate run))(key \<mapsto> Coord a b)"
        and t: "calls run' = tr @ [Sleep 150]"
        using r' by (simp_all add: putCache_def)
      have g: "cacheGrows (geocodeCache (pstate run)) (geocodeCache (pstate run'))"
        unfolding c using miss by (rule cacheGrows_put)
      have hk: "cacheHit (geocodeCache (pstate run')) key \<noteq> None"
        unfolding c by (simp add: cacheHit_def)
      have sub: "set (matchedKeys env (length (calls run)) ext) \<subseteq> {key}"
        using ext(2) by (auto split: if_splits)
      have mc: "matchedCached env run \<Longrightarrow> matchedCached env run'"
        using sub hk cacheGrows_hit [OF g]
        by (auto simp add: matchedCached_def t mk list_all_iff)
      show ?thesis using g mc nr t by simp
    qed
  qed
qed

lemma geocodeStopList_inv:
  "geocodeStopList env ss run = (res, run') \<Longrightarrow>
   cacheGrows (geocodeCache (pstate run)) (geocodeCache (pstate run')) \<and>
   (matchedCached env run \<and> noRepeatAfterMatch env 0 [] (calls run) \<longrightarrow>
    matchedCached env run' \<and> noRepeatAfterMatch env 0 [] (calls run'))"
proof (induction ss arbitrary: run res run')
  case Nil
  then show ?case by (simp add: cacheGrows_refl)
next
  case (Cons s ss)
  obtain r1 run1 where s1: "geocodeStop env s run = (r1, run1)"
    by (cases "geocodeStop env s run")
  note i1 = geocodeStop_inv [OF s1]
  show ?case
  proof (cases r1)
    case (Inl e)
    then have "run' = run1" using Cons.prems s1 by simp
    then show ?thesis using i1 by simp
  next
    case (Inr s')
    obtain r2 run2 where s2: "geocodeStopList env ss run1 = (r2, run2)"
      by (cases "geocodeStopList env ss run1")
    have "run' = run2" using Cons.prems s1 s2 Inr by (cases r2) auto
    then show ?thesis using i1 Cons.IH [OF s2] cacheGrows_trans by blast
  qed
qed

lemma geocodeStopsV4_inv:
  "geocodeStopsV4 env rs run = (res, run') \<Longrightarrow>
   cacheGrows (geocodeCache (pstate run)) (geocodeCache (pstate run')) \<and>
   (matchedCached env run \<and> noRepeatAfterMatch env 0 [] (calls run) \<longrightarrow>
    matchedCached env run' \<and> noRepeatAfterMatch env 0 [] (calls run'))"
proof (induction rs arbitrary: run res run')
  case Nil
  then show ?case by (simp add: cacheGrows_refl)
next
  case (Cons r rs)
  obtain r1 run1 where s1: "geocodeStopList env (stops r) run = (r1, run1)"
    by (cases "geocodeStopList env (stops r) run")
  note i1 = geocodeStopList_inv [OF s1]
  show ?case
  proof (cases r1)
    case (Inl e)
    then have "run' = run1" using Cons.prems s1 by simp
    then show ?thesis using i1 by simp
  next
    case (Inr sts)
    obtain r2 run2 where s2: "geocodeStopsV4 env rs run1 = (r2, run2)"
      by (cases "geocodeStopsV4 env rs run1")
    have "run' = run2" using Cons.prems s1 s2 Inr by (cases r2) auto
    then show ?thesis using i1 Cons.IH [OF s2] cacheGrows_trans by blast
  qed
qed

section \<open>Properties of extraction and of the batch loop\<close>

lemma showDigits_nonempty: "showDigits n \<noteq> []"
  by (subst showDigits.simps) simp

lemma showInt_nonempty: "showInt i \<noteq> []"
  by (simp add: showInt_def showDigits_nonempty)

lemma unchanged_iff:
  "updatedMs item \<noteq> 0 \<Longrightarrow>
   unchanged st item = (processed st (fileId item) = Some (storedStamp item))"
  using showInt_nonempty [of "updatedMs item"]
  by (auto simp add: unchanged_def comparedStamp_def storedStamp_def split: option.splits)

lemma extract_non200:
  "ocr \<noteq> [] \<Longrightarrow> apiKey env \<noteq> [] \<Longrightarrow> fetch env (length tr) ocr = Inr (status, content) \<Longrightarrow>
   status \<noteq> 200 \<Longrightarrow>
   extractSpecEdRoutesV4 env ocr fs fb tr =
     (Inl (Err (''Gemini API '' @ showInt (int status) @ '': '' @ content)), tr @ [Fetch ocr])"
  by (simp add: extractSpecEdRoutesV4_def withRetryV4_def numeral_3_eq_3)

lemma extract_thrown_retried:
  "ocr \<noteq> [] \<Longrightarrow> apiKey env \<noteq> [] \<Longrightarrow> fetch env (length tr) ocr = Inl e \<Longrightarrow>
   prefix (tr @ [Fetch ocr, Sleep (1000 + jitter env (Suc (length tr))), Fetch ocr])
     (snd (extractSpecEdRoutesV4 env ocr fs fb tr))"
  by (auto simp add: extractSpecEdRoutesV4_def withRetryV4_def numeral_3_eq_3
      split: sum.splits prod.splits parsed.splits)

lemma extract_malformed:
  "ocr \<noteq> [] \<Longrightarrow> apiKey env \<noteq> [] \<Longrightarrow> fetch env (length tr) ocr = Inr (200, content) \<Longrightarrow>
   parseBody env content = Inr t \<Longrightarrow> t \<noteq> [] \<Longrightarrow> parseRoutes env t = Malformed \<Longrightarrow>
   extractSpecEdRoutesV4 env ocr fs fb tr =
     (Inr [\<lparr>busNumber = fb, schoolName = fs, stops = []\<rparr>], tr @ [Fetch ocr])"
  by (simp add: extractSpecEdRoutesV4_def withRetryV4_def numeral_3_eq_3)

lemma extract_notarray:
  "ocr \<noteq> [] \<Longrightarrow> apiKey env \<noteq> [] \<Longrightarrow> fetch env (length tr) ocr = Inr (200, content) \<Longrightarrow>
   parseBody env content = Inr t \<Longrightarrow> t \<noteq> [] \<Longrightarrow> parseRoutes env t = NotArray \<Longrightarrow>
   extractSpecEdRoutesV4 env ocr fs fb tr = (Inr [], tr @ [Fetch ocr])"
  by (simp add: extractSpecEdRoutesV4_def withRetryV4_def numeral_3_eq_3)

lemma extract_body_error:
  "ocr \<noteq> [] \<Longrightarrow> apiKey env \<noteq> [] \<Longrightarrow> fetch env (length tr) ocr = Inr (200, content) \<Longrightarrow>
   parseBody env content = Inl e \<Longrightarrow>
   extractSpecEdRoutesV4 env ocr fs fb tr = (Inl e, tr @ [Fetch ocr])"
  by (simp add: extractSpecEdRoutesV4_def withRetryV4_def numeral_3_eq_3)

text \<open>
  Claim C4, on the code.  Only the request itself is inside the retry executor.  With
  \<open>muteHttpExceptions\<close> an answer with a status other than 200, such as 503 or
  429, is returned, not thrown: \<open>extractSpecEdRoutesV4\<close> then makes that one
  request and throws \<open>Gemini API <status>: <content>\<close>, without a second attempt.
  A request that throws is followed by a pause and a second request.  An answer whose
  text is not JSON is not retried and yields one route without stops under the
  fallback names; a text that is JSON but not an array yields no route; an answer
  whose content is not JSON makes the function throw the parse error.
\<close>

theorem generative_call_retry_scope:
  "(ocr \<noteq> [] \<and> apiKey env \<noteq> [] \<and> fetch env (length tr) ocr = Inr (status, content) \<and> status \<noteq> 200 \<longrightarrow>
      extractSpecEdRoutesV4 env ocr fs fb tr =
        (Inl (Err (''Gemini API '' @ showInt (int status) @ '': '' @ content)), tr @ [Fetch ocr])) \<and>
   (ocr \<noteq> [] \<and> apiKey env \<noteq> [] \<and> fetch env (length tr) ocr = Inl e \<longrightarrow>
      prefix (tr @ [Fetch ocr, Sleep (1000 + jitter env (Suc (length tr))), Fetch ocr])
        (snd (extractSpecEdRoutesV4 env ocr fs fb tr))) \<and>
   (ocr \<noteq> [] \<and> apiKey env \<noteq> [] \<and> fetch env (length tr) ocr = Inr (200, content) \<and>
    parseBody env content = Inr t \<and> t \<noteq> [] \<and> parseRoutes env t = Malformed \<longrightarrow>
      extractSpecEdRoutesV4 env ocr fs fb tr =
        (Inr [\<lparr>busNumber = fb, schoolName = fs, stops = []\<rparr>], tr @ [Fetch ocr])) \<and>
   (ocr \<noteq> [] \<and> apiKey env \<noteq> [] \<and> fetch env (length tr) ocr = Inr (200, content) \<and>
    parseBody env content = Inr t \<and> t \<noteq> [] \<and> parseRoutes env t = NotArray \<longrightarrow>
      extractSpecEdRoutesV4 env ocr fs fb tr = (Inr [], tr @ [Fetch ocr])) \<and>
   (ocr \<noteq> [] \<and> apiKey env \<noteq> [] \<and> fetch env (length tr) ocr = Inr (200, content) \<and>
    parseBody env content = Inl e \<longrightarrow>
      extractSpecEdRoutesV4 env ocr fs fb tr = (Inl e, tr @ [Fetch ocr]))"
  using extract_non200 [of ocr env tr status content fs fb] extract_thrown_retried [of ocr env tr e fs fb]
    extract_malformed [of ocr env tr content t fs fb] extract_notarray [of ocr env tr content t fs fb]
    extract_body_error [of ocr env tr content e fs fb]
  by blast

theorem generative_call_retry_scope_witness:
  "extractSpecEdRoutesV4 env503 ''6:42 AM 123 Main St'' ''GUILFORD PARK'' ''021'' [] =
     (Inl (Err ''Gemini API 503: unavailable''), [Fetch ''6:42 AM 123 Main St'']) \<and>
   logs (processItem env503 demoItem emptyRun) =
     [''[ERROR] SPECED_PDF 021 GUILFORD PARK.pdf: Gemini API 503: unavailable''] \<and>
   calls (processItem env503 demoItem emptyRun) = [OcrCopy ''file-1'', Fetch ''6:42 AM 123 Main St''] \<and>
   extractSpecEdRoutesV4 envFlaky ''6:42 AM 123 Main St'' ''GUILFORD PARK'' ''021'' [OcrCopy ''file-1''] =
     (Inr [\<lparr>busNumber = ''021'', schoolName = ''GUILFORD PARK'', stops = []\<rparr>],
      [OcrCopy ''file-1'', Fetch ''6:42 AM 123 Main St'', Sleep 1000, Fetch ''6:42 AM 123 Main St'',
       Sleep 2000, Fetch ''6:42 AM 123 Main St''])"
proof -
  have a: "''6:42 AM 123 Main St'' \<noteq> [] \<and> apiKey env503 \<noteq> [] \<and>
           fetch env503 (length ([] :: call list)) ''6:42 AM 123 Main St'' = Inr (503, ''unavailable'') \<and>
           (503 :: nat) \<noteq> 200"
    by (simp add: env503_def demoEnv_def)
  have s: "showInt (int 503) = ''503''"
    by code_simp
  have w1: "extractSpecEdRoutesV4 env503 ''6:42 AM 123 Main St'' ''GUILFORD PARK'' ''021'' [] =
     (Inl (Err ''Gemini API 503: unavailable''), [Fetch ''6:42 AM 123 Main St''])"
    using generative_call_retry_scope [of "''6:42 AM 123 Main St''" env503 "[]" 503 "''unavailable''"
        "''GUILFORD PARK''" "''021''"] a
    unfolding s by simp
  have w2: "logs (processItem env503 demoItem emptyRun) =
     [''[ERROR] SPECED_PDF 021 GUILFORD PARK.pdf: Gemini API 503: unavailable'']"
    by code_simp
  have w3: "calls (processItem env503 demoItem emptyRun) = [OcrCopy ''file-1'', Fetch ''6:42 AM 123 Main St'']"
    by code_simp
  have w4: "extractSpecEdRoutesV4 envFlaky ''6:42 AM 123 Main St'' ''GUILFORD PARK'' ''021'' [OcrCopy ''file-1''] =
     (Inr [\<lparr>busNumber = ''021'', schoolName = ''GUILFORD PARK'', stops = []\<rparr>],
      [OcrCopy ''file-1'', Fetch ''6:42 AM 123 Main St'', Sleep 1000, Fetch ''6:42 AM 123 Main St'',
       Sleep 2000, Fetch ''6:42 AM 123 Main St''])"
    by code_simp
  show ?thesis using w1 w2 w3 w4 by blast
qed

lemma extractSpecEd_empty: "extractSpecEdRoutesV4 env [] fs fb tr = (Inr [], tr)"
  by (simp add: extractSpecEdRoutesV4_def)

lemma ocr_first_ok:
  "ocrText env (length tr) fid = Inr raw \<Longrightarrow>
   ocrPdfToTextV4 env fid tr = (Inr (trim raw), tr @ [OcrCopy fid])"
  by (simp add: ocrPdfToTextV4_def withRetryV4_def numeral_3_eq_3)

lemma extractRoutes_empty_ocr:
  "routeType item = ''SPECED_PDF'' \<Longrightarrow> ocrText env (length (calls run)) (fileId item) = Inr raw \<Longrightarrow>
   trim raw = [] \<Longrightarrow>
   extractRoutes env item run = (Inr [], run\<lparr>calls := calls run @ [OcrCopy (fileId item)]\<rparr>)"
  by (simp add: extractRoutes_def ocr_first_ok extractSpecEd_empty)

lemma extractRoutes_frame:
  "extractRoutes env item run = (res, run1) \<Longrightarrow>
   pstate run1 = pstate run \<and> logs run1 = logs run \<and> jsonFiles run1 = jsonFiles run \<and>
   sheetFiles run1 = sheetFiles run"
  by (auto simp add: extractRoutes_def split: if_splits prod.splits sum.splits)

lemma processItem_empty_ocr:
  assumes "fileId item \<noteq> []" "routeType item = ''SPECED_PDF''" "\<not> unchanged (pstate run) item"
    "ocrText env (length (calls run)) (fileId item) = Inr raw" "trim raw = []"
  shows "processItem env item run =
     markProcessed item (addLog (''[WARN] '' @ fileName item @ '': no routes extracted'')
       (run\<lparr>calls := calls run @ [OcrCopy (fileId item)]\<rparr>))"
  using assms extractRoutes_empty_ocr [OF assms(2) assms(4) assms(5)]
  by (simp add: processItem_def publishRoutesV4_def)

lemma processItem_no_stops:
  assumes "fileId item \<noteq> []" "routeType item \<noteq> []" "\<not> unchanged (pstate run) item"
    "extractRoutes env item run = (Inr routes, run1)" "routes \<noteq> []"
    "\<forall>r \<in> set routes. stops (cleanRouteV4 r (schoolNameHint item) (busNumberHint item)) = []"
  shows "processItem env item run =
     markProcessed item (addLog (''[WARN] '' @ fileName item @ '': no valid stops after cleanup'') run1)"
proof -
  have "filter (\<lambda>r. stops r \<noteq> [])
          (map (\<lambda>r. cleanRouteV4 r (schoolNameHint item) (busNumberHint item)) routes) = []"
    using assms(6) by (simp add: filter_empty_conv)
  then show ?thesis using assms(1-5)
    by (simp add: processItem_def publishRoutesV4_def)
qed

lemma processItem_thrown:
  assumes "fileId item \<noteq> []" "routeType item \<noteq> []" "\<not> unchanged (pstate run) item"
    "extractRoutes env item run = (Inl e, run1)"
  shows "processed (pstate (processItem env item run)) = processed (pstate run) \<and>
         logs (processItem env item run) =
           logs run @ [''[ERROR] '' @ routeType item @ '' '' @ fileName item @ '': '' @ errTextV4 e]"
  using assms extractRoutes_frame [OF assms(4)]
  by (simp add: processItem_def addLog_def)

lemma markProcessed_processed:
  "processed (pstate (markProcessed item r)) (fileId item) = Some (storedStamp item)"
  by (simp add: markProcessed_def)

text \<open>
  Claim C1, on the code.  An item whose OCR text is empty is logged with the warning
  \<open>no routes extracted\<close>, and an item whose routes keep no stop after cleaning
  (among them the route without stops that stands for an answer that is not JSON) with
  the warning \<open>no valid stops after cleanup\<close>; \<open>publishRoutesV4\<close> returns normally
  in both cases, so the loop goes on to store the fingerprint of the item under its
  file id, and the next pass skips the item.  Only an item whose processing throws is
  logged as an error with its entry of \<open>processed\<close> left as it was.
\<close>

theorem warnings_mark_item_processed:
  "(fileId item \<noteq> [] \<and> routeType item = ''SPECED_PDF'' \<and> \<not> unchanged (pstate run) item \<and>
    ocrText env (length (calls run)) (fileId item) = Inr raw \<and> trim raw = [] \<longrightarrow>
      processItem env item run =
        markProcessed item (addLog (''[WARN] '' @ fileName item @ '': no routes extracted'')
          (run\<lparr>calls := calls run @ [OcrCopy (fileId item)]\<rparr>))) \<and>
   (fileId item \<noteq> [] \<and> routeType item \<noteq> [] \<and> \<not> unchanged (pstate run) item \<and>
    extractRoutes env item run = (Inr routes, run1) \<and> routes \<noteq> [] \<and>
    (\<forall>r \<in> set routes. stops (cleanRouteV4 r (schoolNameHint item) (busNumberHint item)) = []) \<longrightarrow>
      processItem env item run =
        markProcessed item (addLog (''[WARN] '' @ fileName item @ '': no valid stops after cleanup'') run1)) \<and>
   processed (pstate (markProcessed item r)) (fileId item) = Some (storedStamp item) \<and>
   (fileId item \<noteq> [] \<and> routeType item \<noteq> [] \<and> \<not> unchanged (pstate run) item \<and>
    extractRoutes env item run = (Inl e, run2) \<longrightarrow>
      processed (pstate (processItem env item run)) = processed (pstate run) \<and>
      logs (processItem env item run) =
        logs run @ [''[ERROR] '' @ routeType item @ '' '' @ fileName item @ '': '' @ errTextV4 e])"
  using processItem_empty_ocr [of item run env raw] processItem_no_stops [of item run env routes run1]
    processItem_thrown [of item run env e run2] markProcessed_processed [of item r]
  by blast

theorem warnings_mark_item_processed_witness:
  "logs (processItem demoEnv demoItem emptyRun) = [''[WARN] 021 GUILFORD PARK.pdf: no routes extracted''] \<and>
   calls (processItem demoEnv demoItem emptyRun) = [OcrCopy ''file-1''] \<and>
   processed (pstate emptyRun) ''file-1'' = None \<and>
   processed (pstate (processItem demoEnv demoItem emptyRun)) ''file-1'' = Some ''1700000000000'' \<and>
   logs (processItem demoEnv demoItem (processItem demoEnv demoItem emptyRun)) =
     [''[WARN] 021 GUILFORD PARK.pdf: no routes extracted'',
      ''[SKIP] SPECED_PDF 021 GUILFORD PARK.pdf: unchanged''] \<and>
   logs (processItem envFlaky demoItem emptyRun) =
     [''[WARN] 021 GUILFORD PARK.pdf: no valid stops after cleanup''] \<and>
   processed (pstate (processItem envFlaky demoItem emptyRun)) ''file-1'' = Some ''1700000000000'' \<and>
   processed (pstate (processItem env503 demoItem emptyRun)) ''file-1'' = None"
proof -
  have h: "fileId demoItem \<noteq> [] \<and> routeType demoItem = ''SPECED_PDF'' \<and>
           \<not> unchanged (pstate emptyRun) demoItem \<and>
           ocrText demoEnv (length (calls emptyRun)) (fileId demoItem) = Inr [] \<and> trim [] = []"
    by code_simp
  have p: "processItem demoEnv demoItem emptyRun =
        markProcessed demoItem (addLog (''[WARN] '' @ fileName demoItem @ '': no routes extracted'')
          (emptyRun\<lparr>calls := calls emptyRun @ [OcrCopy (fileId demoItem)]\<rparr>))"
    using warnings_mark_item_processed [of demoItem emptyRun demoEnv "[]"] h by blast
  have st: "storedStamp demoItem = ''1700000000000''"
    by code_simp
  have fid: "fileId demoItem = ''file-1''"
    by (simp add: demoItem_def)
  have w1: "logs (processItem demoEnv demoItem emptyRun) = [''[WARN] 021 GUILFORD PARK.pdf: no routes extracted'']"
    unfolding p by (simp add: markProcessed_def addLog_def emptyRun_def demoItem_def)
  have w2: "calls (processItem demoEnv demoItem emptyRun) = [OcrCopy ''file-1'']"
    unfolding p by (simp add: markProcessed_def addLog_def emptyRun_def demoItem_def)
  have w3: "processed (pstate (processItem demoEnv demoItem emptyRun)) ''file-1'' = Some ''1700000000000''"
    unfolding p using warnings_mark_item_processed [of demoItem] st fid by metis
  have w0: "processed (pstate emptyRun) ''file-1'' = None"
    by (simp add: emptyRun_def)
  have w4: "logs (processItem demoEnv demoItem (processItem demoEnv demoItem emptyRun)) =
     [''[WARN] 021 GUILFORD PARK.pdf: no routes extracted'',
      ''[SKIP] SPECED_PDF 021 GUILFORD PARK.pdf: unchanged'']"
    by code_simp
  have w5: "logs (processItem envFlaky demoItem emptyRun) =
     [''[WARN] 021 GUILFORD PARK.pdf: no valid stops after cleanup'']"
    by code_simp
  have w6: "processed (pstate (processItem envFlaky demoItem emptyRun)) ''file-1'' = Some ''1700000000000''"
    by code_simp
  have w7: "processed (pstate (processItem env503 demoItem emptyRun)) ''file-1'' = None"
    by code_simp
  show ?thesis using w0 w1 w2 w3 w4 w5 w6 w7 by blast
qed

lemma retryLoop_prefix:
  "(\<And>t. prefix t (snd (fn t))) \<Longrightarrow> prefix tr (snd (retryLoop env fn b e i k tr))"
proof (induction k arbitrary: e i tr)
  case 0
  show ?case by simp
next
  case (Suc k)
  obtain r t1 where f: "fn tr = (r, t1)" by (cases "fn tr")
  have p1: "prefix tr t1" using Suc.prems [of tr] f by simp
  show ?case
  proof (cases r)
    case (Inr v)
    then show ?thesis using f p1 by simp
  next
    case (Inl e')
    show ?thesis
    proof (cases "k = 0")
      case True
      then show ?thesis using f Inl p1 by simp
    next
      case False
      have "prefix (t1 @ [Sleep (b * 2 ^ i + jitter env (length t1))])
              (snd (retryLoop env fn b e' (Suc i) k (t1 @ [Sleep (b * 2 ^ i + jitter env (length t1))])))"
        using Suc.IH [OF Suc.prems] by blast
      then have "prefix tr (snd (retryLoop env fn b e' (Suc i) k (t1 @ [Sleep (b * 2 ^ i + jitter env (length t1))])))"
        using p1 by (meson prefix_order.trans prefixI)
      then show ?thesis using f Inl False by simp
    qed
  qed
qed

lemma retryLoop_first_call:
  "(\<And>t. prefix (t @ [c]) (snd (fn t))) \<Longrightarrow> prefix (tr @ [c]) (snd (retryLoop env fn b e i (Suc k) tr))"
proof -
  assume a: "\<And>t. prefix (t @ [c]) (snd (fn t))"
  obtain r t1 where f: "fn tr = (r, t1)" by (cases "fn tr")
  have p1: "prefix (tr @ [c]) t1" using a [of tr] f by simp
  have a': "\<And>t. prefix t (snd (fn t))"
    using a by (meson prefix_order.trans prefixI)
  show ?thesis
  proof (cases r)
    case (Inr v)
    then show ?thesis using f p1 by simp
  next
    case (Inl e')
    show ?thesis
    proof (cases "k = 0")
      case True
      then show ?thesis using f Inl p1 by simp
    next
      case False
      have "prefix (t1 @ [Sleep (b * 2 ^ i + jitter env (length t1))])
              (snd (retryLoop env fn b e' (Suc i) k (t1 @ [Sleep (b * 2 ^ i + jitter env (length t1))])))"
        using retryLoop_prefix [of fn, OF a'] by blast
      then have "prefix (tr @ [c]) (snd (retryLoop env fn b e' (Suc i) k (t1 @ [Sleep (b * 2 ^ i + jitter env (length t1))])))"
        using p1 by (meson prefix_order.trans prefixI)
      then show ?thesis using f Inl False by simp
    qed
  qed
qed

lemma ocr_first_call: "prefix (tr @ [OcrCopy fid]) (snd (ocrPdfToTextV4 env fid tr))"
  unfolding ocrPdfToTextV4_def withRetryV4_def numeral_3_eq_3
  by (rule retryLoop_first_call) simp

lemma extractSpecEd_prefix: "prefix tr (snd (extractSpecEdRoutesV4 env ocr fs fb tr))"
proof -
  have "prefix tr (snd (withRetryV4 env (\<lambda>t. (fetch env (length t) ocr, t @ [Fetch ocr])) 3 1000 tr))"
    unfolding withRetryV4_def by (rule retryLoop_prefix) simp
  then show ?thesis
    by (auto simp add: extractSpecEdRoutesV4_def split: prod.splits sum.splits parsed.splits)
qed

lemma extractRoutes_first_call:
  "routeType item = ''REGED_DOC'' \<or> routeType item = ''SPECED_PDF'' \<Longrightarrow>
   prefix (calls run @ [if routeType item = ''REGED_DOC'' then DocsGet (fileId item) else OcrCopy (fileId item)])
     (calls (snd (extractRoutes env item run)))"
proof (cases "routeType item = ''REGED_DOC''")
  case True
  then show ?thesis by (simp add: extractRoutes_def)
next
  case False
  assume "routeType item = ''REGED_DOC'' \<or> routeType item = ''SPECED_PDF''"
  then have sp: "routeType item = ''SPECED_PDF''" using False by simp
  obtain r tr where o: "ocrPdfToTextV4 env (fileId item) (calls run) = (r, tr)"
    by (cases "ocrPdfToTextV4 env (fileId item) (calls run)")
  have p: "prefix (calls run @ [OcrCopy (fileId item)]) tr"
    using ocr_first_call [of "calls run" "fileId item" env] o by simp
  show ?thesis
  proof (cases r)
    case (Inl e)
    then show ?thesis using sp o p False by (simp add: extractRoutes_def)
  next
    case (Inr ocr)
    have "prefix tr (snd (extractSpecEdRoutesV4 env ocr
                     (if schoolNameHint item \<noteq> [] then schoolNameHint item
                      else stripExtV4 (fileName item))
                     (busNumberHint item) tr))"
      by (rule extractSpecEd_prefix)
    then show ?thesis using sp o p False Inr
      by (auto simp add: extractRoutes_def split: prod.splits intro: prefix_order.trans)
  qed
qed

lemma geocodeStop_calls: "prefix (calls run) (calls (snd (geocodeStop env stop run)))"
proof -
  have "prefix (calls run)
     (snd (withRetryV4 env (\<lambda>t. (geocode env (length t) (geocodeQuery stop), t @ [Geocode (geocodeQuery stop)])) 3 500 (calls run)))"
    unfolding withRetryV4_def by (rule retryLoop_prefix) simp
  then show ?thesis
    by (auto simp add: geocodeStop_def Let_def putCache_def
        split: option.splits prod.splits sum.splits intro: prefix_order.trans)
qed

lemma geocodeStopList_calls: "prefix (calls run) (calls (snd (geocodeStopList env ss run)))"
proof (induction ss arbitrary: run)
  case Nil
  show ?case by simp
next
  case (Cons s ss)
  obtain r1 run1 where s1: "geocodeStop env s run = (r1, run1)"
    by (cases "geocodeStop env s run")
  have p1: "prefix (calls run) (calls run1)"
    using geocodeStop_calls [of run env s] s1 by simp
  show ?case
  proof (cases r1)
    case (Inl e)
    then show ?thesis using s1 p1 by simp
  next
    case (Inr s')
    obtain r2 run2 where s2: "geocodeStopList env ss run1 = (r2, run2)"
      by (cases "geocodeStopList env ss run1")
    have "prefix (calls run1) (calls run2)" using Cons.IH [of run1] s2 by simp
    then have "prefix (calls run) (calls run2)" using p1 by (rule prefix_order.trans [rotated])
    then show ?thesis using s1 s2 Inr by (cases r2) auto
  qed
qed

lemma geocodeStopsV4_calls: "prefix (calls run) (calls (snd (geocodeStopsV4 env rs run)))"
proof (induction rs arbitrary: run)
  case Nil
  show ?case by simp
next
  case (Cons r rs)
  obtain r1 run1 where s1: "geocodeStopList env (stops r) run = (r1, run1)"
    by (cases "geocodeStopList env (stops r) run")
  have p1: "prefix (calls run) (calls run1)"
    using geocodeStopList_calls [of run env "stops r"] s1 by simp
  show ?case
  proof (cases r1)
    case (Inl e)
    then show ?thesis using s1 p1 by simp
  next
    case (Inr sts)
    obtain r2 run2 where s2: "geocodeStopsV4 env rs run1 = (r2, run2)"
      by (cases "geocodeStopsV4 env rs run1")
    have "prefix (calls run1) (calls run2)" using Cons.IH [of run1] s2 by simp
    then have "prefix (calls run) (calls run2)" using p1 by (rule prefix_order.trans [rotated])
    then show ?thesis using s1 s2 Inr by (cases r2) auto
  qed
qed

lemma publishOne_calls: "prefix (calls run) (calls (publishOne env item route run))"
  by (simp add: publishOne_def Let_def upsertJsonV4_def upsertSheetV4_def addLog_def
      WRITE_JSON_V4_def WRITE_SHEETS_V4_def)

lemma publishAll_calls:
  "prefix (calls run) (calls (foldl (\<lambda>r route. publishOne env item route r) run rs))"
proof (induction rs arbitrary: run)
  case Nil
  show ?case by simp
next
  case (Cons r rs)
  show ?case
    using Cons.IH [of "publishOne env item r run"] publishOne_calls [of run env item r]
    by (auto intro: prefix_order.trans)
qed

lemma publishRoutesV4_calls: "prefix (calls run) (calls (snd (publishRoutesV4 env routes item run)))"
proof (cases "routes = []")
  case True
  then show ?thesis by (simp add: publishRoutesV4_def addLog_def)
next
  case False
  define cl where "cl = filter (\<lambda>r. stops r \<noteq> [])
                (map (\<lambda>r. cleanRouteV4 r (schoolNameHint item) (busNumberHint item)) routes)"
  show ?thesis
  proof (cases "cl = []")
    case True
    then show ?thesis using False by (simp add: publishRoutesV4_def addLog_def cl_def)
  next
    case ne: False
    obtain r run1 where g: "geocodeStopsV4 env cl run = (r, run1)"
      by (cases "geocodeStopsV4 env cl run")
    have p1: "prefix (calls run) (calls run1)"
      using geocodeStopsV4_calls [of run env cl] g by simp
    show ?thesis
    proof (cases r)
      case (Inl e)
      then show ?thesis using False ne g p1 by (simp add: publishRoutesV4_def cl_def [symmetric])
    next
      case (Inr geocoded)
      have "prefix (calls run1) (calls (foldl (\<lambda>r route. publishOne env item route r) run1 geocoded))"
        by (rule publishAll_calls)
      then have "prefix (calls run) (calls (foldl (\<lambda>r route. publishOne env item route r) run1 geocoded))"
        using p1 by (rule prefix_order.trans [rotated])
      then show ?thesis using False ne g Inr by (simp add: publishRoutesV4_def cl_def [symmetric])
    qed
  qed
qed

lemma processItem_first_call:
  assumes "fileId item \<noteq> []" "routeType item = ''REGED_DOC'' \<or> routeType item = ''SPECED_PDF''"
    "\<not> unchanged (pstate run) item"
  shows "prefix (calls run @ [if routeType item = ''REGED_DOC'' then DocsGet (fileId item)
                               else OcrCopy (fileId item)])
           (calls (processItem env item run))"
proof -
  obtain r run1 where e: "extractRoutes env item run = (r, run1)"
    by (cases "extractRoutes env item run")
  have p1: "prefix (calls run @ [if routeType item = ''REGED_DOC'' then DocsGet (fileId item)
                               else OcrCopy (fileId item)]) (calls run1)"
    using extractRoutes_first_call [OF assms(2), of run env] e by simp
  have ne: "routeType item \<noteq> []" using assms(2) by auto
  show ?thesis
  proof (cases r)
    case (Inl err)
    then show ?thesis using assms(1,3) ne e p1 by (simp add: processItem_def addLog_def)
  next
    case (Inr routes)
    obtain r2 run2 where p: "publishRoutesV4 env routes item run1 = (r2, run2)"
      by (cases "publishRoutesV4 env routes item run1")
    have "prefix (calls run1) (calls run2)"
      using publishRoutesV4_calls [of run1 env routes item] p by simp
    then have "prefix (calls run @ [if routeType item = ''REGED_DOC'' then DocsGet (fileId item)
                               else OcrCopy (fileId item)]) (calls run2)"
      using p1 by (rule prefix_order.trans [rotated])
    then show ?thesis using assms(1,3) ne e Inr p
      by (cases r2) (simp_all add: processItem_def addLog_def markProcessed_def)
  qed
qed

lemma processItem_skip:
  "fileId item \<noteq> [] \<Longrightarrow> routeType item \<noteq> [] \<Longrightarrow> unchanged (pstate run) item \<Longrightarrow>
   processItem env item run =
     addLog (''[SKIP] '' @ routeType item @ '' '' @ fileName item @ '': unchanged'') run"
  by (simp add: processItem_def)

lemma showInt_0: "showInt 0 = ''0''"
  by code_simp

lemma unchanged_zero_new:
  "updatedMs item = 0 \<Longrightarrow> processed st (fileId item) = None \<Longrightarrow> unchanged st item"
  by (simp add: unchanged_def comparedStamp_def)

lemma unchanged_zero_stored:
  "updatedMs item = 0 \<Longrightarrow> processed st (fileId item) = Some (storedStamp item) \<Longrightarrow> \<not> unchanged st item"
  by (simp add: unchanged_def comparedStamp_def storedStamp_def showInt_0)

text \<open>
  Claim C2, on the code.  An item that the test of the loop finds unchanged only adds
  a \<open>[SKIP]\<close> line: state, trace and files stay as they are.  An item of one of the
  two route types that the test does not find unchanged is processed: its document
  read or its OCR conversion is the next call of the trace.  For a time stamp other
  than 0 the test is exactly the comparison of the stored entry with the fingerprint
  that the loop stores.  For the time stamp 0 it is not: the loop stores the text
  \<open>0\<close> but compares with the empty text, so an item that was never processed is
  found unchanged, and an item whose fingerprint is stored is processed again.
\<close>

theorem fingerprint_skip_and_zero_stamp:
  "(fileId item \<noteq> [] \<and> routeType item \<noteq> [] \<and> unchanged (pstate run) item \<longrightarrow>
      processItem env item run =
        addLog (''[SKIP] '' @ routeType item @ '' '' @ fileName item @ '': unchanged'') run) \<and>
   (fileId item \<noteq> [] \<and> (routeType item = ''REGED_DOC'' \<or> routeType item = ''SPECED_PDF'') \<and>
    \<not> unchanged (pstate run) item \<longrightarrow>
      prefix (calls run @ [if routeType item = ''REGED_DOC'' then DocsGet (fileId item)
                           else OcrCopy (fileId item)])
        (calls (processItem env item run))) \<and>
   (updatedMs item \<noteq> 0 \<longrightarrow>
      unchanged st item = (processed st (fileId item) = Some (storedStamp item))) \<and>
   (updatedMs item = 0 \<and> processed st (fileId item) = None \<longrightarrow> unchanged st item) \<and>
   (updatedMs item = 0 \<and> processed st (fileId item) = Some (storedStamp item) \<longrightarrow>
      \<not> unchanged st item)"
  using processItem_skip [of item run env] processItem_first_call [of item run env]
    unchanged_iff [of item st] unchanged_zero_new [of item st] unchanged_zero_stored [of item st]
  by blast

theorem fingerprint_skip_and_zero_stamp_witness:
  "updatedMs zeroItem = 0 \<and> processed (pstate emptyRun) (fileId zeroItem) = None \<and>
   processItem demoEnv zeroItem emptyRun =
     addLog ''[SKIP] SPECED_PDF 021 GUILFORD PARK.pdf: unchanged'' emptyRun \<and>
   calls (processItem demoEnv zeroItem emptyRun) = [] \<and>
   processed (pstate markedRun) (fileId zeroItem) = Some (storedStamp zeroItem) \<and>
   storedStamp zeroItem = ''0'' \<and>
   prefix [OcrCopy ''file-1''] (calls (processItem demoEnv zeroItem markedRun)) \<and>
   updatedMs demoItem \<noteq> 0 \<and>
   unchanged (pstate emptyRun) demoItem = (processed (pstate emptyRun) (fileId demoItem) = Some ''1700000000000'') \<and>
   \<not> unchanged (pstate emptyRun) demoItem"
proof -
  have z: "updatedMs zeroItem = 0" "fileId zeroItem \<noteq> []" "routeType zeroItem \<noteq> []"
    "routeType zeroItem = ''SPECED_PDF''" "fileId zeroItem = ''file-1''" "fileName zeroItem = ''021 GUILFORD PARK.pdf''"
    by (simp_all add: zeroItem_def demoItem_def)
  have n: "processed (pstate emptyRun) (fileId zeroItem) = None"
    by (simp add: emptyRun_def)
  have u: "unchanged (pstate emptyRun) zeroItem"
    using fingerprint_skip_and_zero_stamp [of zeroItem _ _ "pstate emptyRun"] z n by blast
  have a: "processItem demoEnv zeroItem emptyRun =
     addLog ''[SKIP] SPECED_PDF 021 GUILFORD PARK.pdf: unchanged'' emptyRun"
    using fingerprint_skip_and_zero_stamp [of zeroItem emptyRun demoEnv] z u by simp
  have b: "calls (processItem demoEnv zeroItem emptyRun) = []"
    unfolding a by (simp add: addLog_def emptyRun_def)
  have m: "processed (pstate markedRun) (fileId zeroItem) = Some (storedStamp zeroItem)"
    by (simp add: markedRun_def markProcessed_def)
  have s0: "storedStamp zeroItem = ''0''"
    by code_simp
  have nu: "\<not> unchanged (pstate markedRun) zeroItem"
    using fingerprint_skip_and_zero_stamp [of zeroItem _ _ "pstate markedRun"] z m by blast
  have cm: "calls markedRun = []"
    by (simp add: markedRun_def markProcessed_def emptyRun_def)
  have c: "prefix [OcrCopy ''file-1''] (calls (processItem demoEnv zeroItem markedRun))"
    using fingerprint_skip_and_zero_stamp [of zeroItem markedRun demoEnv] z nu cm by simp
  have d: "updatedMs demoItem \<noteq> 0"
    by (simp add: demoItem_def)
  have sd: "storedStamp demoItem = ''1700000000000''"
    by code_simp
  have e: "unchanged (pstate emptyRun) demoItem =
      (processed (pstate emptyRun) (fileId demoItem) = Some ''1700000000000'')"
    using fingerprint_skip_and_zero_stamp [of demoItem _ _ "pstate emptyRun"] d sd by simp
  have f: "\<not> unchanged (pstate emptyRun) demoItem"
    unfolding e by (simp add: emptyRun_def)
  show ?thesis using z(1) n a b m s0 c d e f by blast
qed

section \<open>Properties of the publisher\<close>

lemma toUpperChar_not_lower: "toUpperChar c \<notin> set lowerLetters"
proof (cases "c \<in> set lowerLetters")
  case True
  then show ?thesis
    by (auto simp add: toUpperChar_def lowerLetters_def upperLetters_def)
next
  case False
  then have "map_of (zip lowerLetters upperLetters) c = None"
    by (simp add: map_of_zip_is_None lowerLetters_def upperLetters_def)
  then show ?thesis using False by (simp add: toUpperChar_def)
qed

lemma toUpperCase_not_lower: "c \<in> set (toUpperCase s) \<Longrightarrow> c \<notin> set lowerLetters"
  using toUpperChar_not_lower by (auto simp add: toUpperCase_def)

lemma space_not_lower: "CHR '' '' \<notin> set lowerLetters"
  by (simp add: lowerLetters_def)

lemma replaceDashes_set:
  "set (replaceDashes pend f s) \<subseteq> set pend \<union> set s \<union> {CHR '' ''}"
  by (induction pend f s rule: replaceDashes.induct) auto

lemma routeMatchAt_set: "routeMatchAt prev r = Some rest \<Longrightarrow> set rest \<subseteq> set r"
proof -
  assume a: "routeMatchAt prev r = Some rest"
  define r1 where "r1 = (case r of [] \<Rightarrow> r | c # cs \<Rightarrow> if c = CHR ''('' then cs else r)"
  define r3 where "r3 = dropWhile isSpace (drop 5 (dropWhile isSpace r1))"
  have s1: "set r1 \<subseteq> set r" by (auto simp add: r1_def split: list.splits)
  have s3: "set r3 \<subseteq> set r1"
    unfolding r3_def by (meson set_dropWhileD in_set_dropD subsetI)
  have "rest = (case r3 of [] \<Rightarrow> r3 | c # cs \<Rightarrow> if c = CHR '')'' then cs else r3)"
    unfolding r3_def r1_def using a by (auto simp add: routeMatchAt_def Let_def split: if_splits)
  then have "set rest \<subseteq> set r3" by (auto split: list.splits if_splits)
  then show ?thesis using s1 s3 by blast
qed

lemma removeRoute_set: "set (removeRoute prev s) \<subseteq> set s"
proof (induction prev s rule: removeRoute.induct)
  case (1 prev)
  show ?case by simp
next
  case (2 prev c cs)
  show ?case
  proof (cases "routeMatchAt prev (c # cs)")
    case None
    then show ?thesis using 2 by auto
  next
    case (Some rest)
    then show ?thesis using routeMatchAt_set [OF Some] by simp
  qed
qed

lemma removePeriodSuffix_set: "set (removePeriodSuffix s) \<subseteq> set s"
  by (induction s) auto

lemma collapseWs_set: "set (collapseWs f s) \<subseteq> set s \<union> {CHR '' ''}"
  by (induction f s rule: collapseWs.induct) auto

lemma trim_set: "set (trim s) \<subseteq> set s"
proof -
  have "set (dropWhile isSpace (rev (dropWhile isSpace s))) \<subseteq> set (rev (dropWhile isSpace s))"
    by (auto dest: set_dropWhileD)
  moreover have "set (rev (dropWhile isSpace s)) \<subseteq> set s"
    by (auto dest: set_dropWhileD)
  ultimately show ?thesis by (auto simp add: trim_def)
qed

lemma normalizeWs_set: "set (normalizeWsV4 s) \<subseteq> set s \<union> {CHR '' ''}"
  using trim_set collapseWs_set unfolding normalizeWsV4_def by blast

lemma canonicalizeSchool_upper: "c \<in> set (canonicalizeSchoolV4 s) \<Longrightarrow> c \<notin> set lowerLetters"
proof -
  assume a: "c \<in> set (canonicalizeSchoolV4 s)"
  have "set (canonicalizeSchoolV4 s) \<subseteq> set (toUpperCase s) \<union> {CHR '' ''}"
    unfolding canonicalizeSchoolV4_def
    using normalizeWs_set [of "removePeriodSuffix (removeRoute False (replaceDashes [] False (toUpperCase s)))"]
      removePeriodSuffix_set [of "removeRoute False (replaceDashes [] False (toUpperCase s))"]
      removeRoute_set [of False "replaceDashes [] False (toUpperCase s)"]
      replaceDashes_set [of "[]" False "toUpperCase s"]
    by auto
  then show ?thesis using a toUpperCase_not_lower space_not_lower by blast
qed

lemma isSpace_blank: "isSpace (CHR '' '')"
  by (simp add: isSpace_def)

lemma collapseWs_single:
  "singleSpaced (collapseWs f s) \<and>
   (f \<longrightarrow> (case collapseWs f s of [] \<Rightarrow> True | c # _ \<Rightarrow> \<not> isSpace c))"
proof (induction f s rule: collapseWs.induct)
  case (1 inRun)
  show ?case by simp
next
  case (2 inRun c cs)
  show ?case
  proof (cases "isSpace c")
    case True
    then show ?thesis using 2 by (cases "collapseWs True cs") auto
  next
    case False
    then show ?thesis using 2 by (cases "collapseWs False cs") auto
  qed
qed

lemma singleSpaced_append: "singleSpaced (xs @ ys) \<Longrightarrow> singleSpaced xs \<and> singleSpaced ys"
proof (induction xs)
  case Nil
  then show ?case by simp
next
  case (Cons x xs)
  show ?case
  proof (cases xs)
    case Nil
    then show ?thesis using Cons.prems by (cases ys) auto
  next
    case (Cons y zs)
    then show ?thesis using \<open>singleSpaced ((x # xs) @ ys)\<close> \<open>singleSpaced (xs @ ys) \<Longrightarrow> singleSpaced xs \<and> singleSpaced ys\<close>
      by auto
  qed
qed

lemma rev_dropWhile_rev_prefix: "xs = rev (dropWhile P (rev xs)) @ rev (takeWhile P (rev xs))"
proof -
  have "rev (dropWhile P (rev xs)) @ rev (takeWhile P (rev xs)) =
        rev (takeWhile P (rev xs) @ dropWhile P (rev xs))"
    by (simp only: rev_append)
  also have "\<dots> = rev (rev xs)"
    by (simp only: takeWhile_dropWhile_id)
  finally show ?thesis by simp
qed

lemma trim_single: "singleSpaced s \<Longrightarrow> singleSpaced (trim s)"
proof -
  assume a: "singleSpaced s"
  have "s = takeWhile isSpace s @ dropWhile isSpace s" by simp
  then have d: "singleSpaced (dropWhile isSpace s)"
    using a singleSpaced_append [of "takeWhile isSpace s" "dropWhile isSpace s"] by simp
  have "dropWhile isSpace s = trim s @ rev (takeWhile isSpace (rev (dropWhile isSpace s)))"
    unfolding trim_def by (rule rev_dropWhile_rev_prefix)
  then show ?thesis using d singleSpaced_append by metis
qed

lemma trim_ends:
  "trim s \<noteq> [] \<Longrightarrow> \<not> isSpace (hd (trim s)) \<and> \<not> isSpace (last (trim s))"
proof -
  assume ne: "trim s \<noteq> []"
  define d where "d = dropWhile isSpace s"
  define e where "e = dropWhile isSpace (rev d)"
  have t: "trim s = rev e" by (simp add: trim_def d_def e_def)
  have ene: "e \<noteq> []" using ne t by simp
  have l: "\<not> isSpace (hd e)" unfolding e_def using ene e_def hd_dropWhile by blast
  have dne: "d \<noteq> []" using ene e_def by auto
  have hd_d: "\<not> isSpace (hd d)" unfolding d_def using dne d_def hd_dropWhile by blast
  have "d = rev e @ rev (takeWhile isSpace (rev d))"
    unfolding e_def by (rule rev_dropWhile_rev_prefix)
  then have "hd d = hd (rev e)" using ene by (metis hd_append2 rev_is_Nil_conv)
  then have h: "\<not> isSpace (hd (trim s))" using hd_d t by simp
  have "last (rev e) = hd e" using ene by (simp add: last_rev)
  then show ?thesis using h l t by simp
qed

lemma normalizeWs_shape:
  "singleSpaced (normalizeWsV4 s) \<and>
   (normalizeWsV4 s \<noteq> [] \<longrightarrow> \<not> isSpace (hd (normalizeWsV4 s)) \<and> \<not> isSpace (last (normalizeWsV4 s)))"
  unfolding normalizeWsV4_def
  using trim_single [of "collapseWs False s"] collapseWs_single [of False s] trim_ends [of "collapseWs False s"]
  by blast

lemma publishOne_json:
  "jsonFiles (publishOne env item route run) =
     (jsonFiles run)
       ((if busNumber route = [] then ''N-A'' else busNumber route,
         canonicalRouteFileStemV4 (schoolName route) (stops route) @ ''.json'')
        \<mapsto> artifactOf item (clock env (length (calls run))) route)"
  by (simp add: publishOne_def Let_def upsertJsonV4_def upsertSheetV4_def addLog_def
      WRITE_JSON_V4_def WRITE_SHEETS_V4_def)

lemma publishOne_sheet:
  "sheetFiles (publishOne env item route run) =
     (sheetFiles run)
       ((if busNumber route = [] then ''N-A'' else busNumber route,
         canonicalRouteFileStemV4 (schoolName route) (stops route)) \<mapsto> route)"
  by (simp add: publishOne_def Let_def upsertJsonV4_def upsertSheetV4_def addLog_def
      WRITE_JSON_V4_def WRITE_SHEETS_V4_def)

lemma artifact_differs_in_time_only:
  "artifactOf item t1 route =
     (artifactOf item t2 route)\<lparr>meta := (meta (artifactOf item t2 route))\<lparr>generatedAt := t1\<rparr>\<rparr>"
  by (simp add: artifactOf_def)

lemma replaceDashes_no_dash:
  "CHR ''-'' \<notin> set pend \<Longrightarrow> CHR ''-'' \<notin> set (replaceDashes pend f s)"
  by (induction pend f s rule: replaceDashes.induct) auto

text \<open>
  Claim C8, on the code.  Publishing a cleaned route writes its artifact into the
  folder of its bus number under the canonical name, the canonical school name
  followed by the period in parentheses, with the extension \<open>.json\<close>.  Publishing
  the same route for the same work item again writes under the same name and replaces
  the content; every other file is left as it was, and so is the sheet.  Two artifacts
  of one route and one item are equal once \<open>generatedAt\<close> is set to the same value,
  so they differ at most in that field (their serialisation is a function of the
  artifact).  The canonical school name has no lower-case letter, no two white-space
  characters side by side and none at its ends, and a trailing \<open>(AM)\<close>, \<open>(pm)\<close>
  or \<open>(Midday)\<close> and a free-standing word \<open>Route\<close> are removed.

  The annotations are not always removed, though.  The dashes are replaced before the
  period is looked for, so the text that reaches that step has no dash and the
  spelling \<open>(MID-DAY)\<close>, which the expression lists, can never be met:
  \<open>Oakland Mills (Mid-Day)\<close> keeps \<open>(MID DAY)\<close>.  The word boundary in front
  of the optional parenthesis does not hold after a blank, so \<open>(Route)\<close> leaves its
  opening parenthesis behind; and removing \<open>Route\<close> together with the white space
  around it glues a following \<open>(AM)\<close> to the name, where the period step, which
  asks for white space in front, no longer finds it.  Two spellings of one school then
  get two artifact names.
\<close>

theorem publish_same_name_same_content:
  "jsonFiles (publishOne env item route run) =
     (jsonFiles run)
       ((if busNumber route = [] then ''N-A'' else busNumber route,
         canonicalRouteFileStemV4 (schoolName route) (stops route) @ ''.json'')
        \<mapsto> artifactOf item (clock env (length (calls run))) route) \<and>
   jsonFiles (publishOne env item route (publishOne env item route run)) =
     (jsonFiles run)
       ((if busNumber route = [] then ''N-A'' else busNumber route,
         canonicalRouteFileStemV4 (schoolName route) (stops route) @ ''.json'')
        \<mapsto> artifactOf item (clock env (length (calls (publishOne env item route run)))) route) \<and>
   sheetFiles (publishOne env item route (publishOne env item route run)) =
     sheetFiles (publishOne env item route run) \<and>
   artifactOf item t1 route =
     (artifactOf item t2 route)\<lparr>meta := (meta (artifactOf item t2 route))\<lparr>generatedAt := t1\<rparr>\<rparr> \<and>
   canonicalRouteFileStemV4 school sts =
     canonicalizeSchoolV4 school @ '' ('' @ canonicalPeriodV4 sts school @ '')'' \<and>
   (\<forall>c \<in> set (canonicalizeSchoolV4 school). c \<notin> set lowerLetters) \<and>
   singleSpaced (canonicalizeSchoolV4 school) \<and>
   (canonicalizeSchoolV4 school \<noteq> [] \<longrightarrow>
      \<not> isSpace (hd (canonicalizeSchoolV4 school)) \<and> \<not> isSpace (last (canonicalizeSchoolV4 school))) \<and>
   canonicalizeSchoolV4 ''Guilford Park (AM)'' = ''GUILFORD PARK'' \<and>
   canonicalizeSchoolV4 ''guilford   park - Route'' = ''GUILFORD PARK'' \<and>
   canonicalizeSchoolV4 ''Oakland Mills  MS (pm)'' = ''OAKLAND MILLS MS'' \<and>
   canonicalizeSchoolV4 ''Oakland Mills (Midday)'' = ''OAKLAND MILLS'' \<and>
   CHR ''-'' \<notin> set (removeRoute False (replaceDashes [] False (toUpperCase school))) \<and>
   canonicalizeSchoolV4 ''Oakland Mills (Mid-Day)'' = ''OAKLAND MILLS (MID DAY)'' \<and>
   canonicalizeSchoolV4 ''Guilford Park (Route)'' = ''GUILFORD PARK ('' \<and>
   canonicalizeSchoolV4 ''Guilford Park Route (AM)'' = ''GUILFORD PARK(AM)'' \<and>
   canonicalRouteFileStemV4 ''Oakland Mills (Mid-Day)'' [mkStop ''11:30 AM'' ''A ST''] =
     ''OAKLAND MILLS (MID DAY) (Mid-day)'' \<and>
   canonicalRouteFileStemV4 ''Oakland Mills'' [mkStop ''11:30 AM'' ''A ST''] = ''OAKLAND MILLS (Mid-day)''"
proof -
  have j2: "jsonFiles (publishOne env item route (publishOne env item route run)) =
     (jsonFiles run)
       ((if busNumber route = [] then ''N-A'' else busNumber route,
         canonicalRouteFileStemV4 (schoolName route) (stops route) @ ''.json'')
        \<mapsto> artifactOf item (clock env (length (calls (publishOne env item route run)))) route)"
    by (simp add: publishOne_json)
  have s2: "sheetFiles (publishOne env item route (publishOne env item route run)) =
     sheetFiles (publishOne env item route run)"
    by (simp add: publishOne_sheet)
  have st: "canonicalRouteFileStemV4 school sts =
     canonicalizeSchoolV4 school @ '' ('' @ canonicalPeriodV4 sts school @ '')''"
    by (simp add: canonicalRouteFileStemV4_def)
  have up: "\<forall>c \<in> set (canonicalizeSchoolV4 school). c \<notin> set lowerLetters"
    using canonicalizeSchool_upper by blast
  have sh: "singleSpaced (canonicalizeSchoolV4 school) \<and>
     (canonicalizeSchoolV4 school \<noteq> [] \<longrightarrow>
        \<not> isSpace (hd (canonicalizeSchoolV4 school)) \<and> \<not> isSpace (last (canonicalizeSchoolV4 school)))"
    unfolding canonicalizeSchoolV4_def by (rule normalizeWs_shape)
  have e1: "canonicalizeSchoolV4 ''Guilford Park (AM)'' = ''GUILFORD PARK''"
    by code_simp
  have e2: "canonicalizeSchoolV4 ''guilford   park - Route'' = ''GUILFORD PARK''"
    by code_simp
  have e3: "canonicalizeSchoolV4 ''Oakland Mills  MS (pm)'' = ''OAKLAND MILLS MS''"
    by code_simp
  have e4: "canonicalizeSchoolV4 ''Oakland Mills (Midday)'' = ''OAKLAND MILLS''"
    by code_simp
  have nd: "CHR ''-'' \<notin> set (removeRoute False (replaceDashes [] False (toUpperCase school)))"
    using replaceDashes_no_dash [of "[]" False "toUpperCase school"]
      removeRoute_set [of False "replaceDashes [] False (toUpperCase school)"]
    by auto
  have f1: "canonicalizeSchoolV4 ''Oakland Mills (Mid-Day)'' = ''OAKLAND MILLS (MID DAY)''"
    by code_simp
  have f2: "canonicalizeSchoolV4 ''Guilford Park (Route)'' = ''GUILFORD PARK (''"
    by code_simp
  have f3: "canonicalizeSchoolV4 ''Guilford Park Route (AM)'' = ''GUILFORD PARK(AM)''"
    by code_simp
  have f4: "canonicalRouteFileStemV4 ''Oakland Mills (Mid-Day)'' [mkStop ''11:30 AM'' ''A ST''] =
     ''OAKLAND MILLS (MID DAY) (Mid-day)''"
    by code_simp
  have f5: "canonicalRouteFileStemV4 ''Oakland Mills'' [mkStop ''11:30 AM'' ''A ST''] = ''OAKLAND MILLS (Mid-day)''"
    by code_simp
  show ?thesis
    using publishOne_json [of env item route run] j2 s2 artifact_differs_in_time_only [of item t1 route t2]
      st up sh [THEN conjunct1] sh [THEN conjunct2] e1 e2 e3 e4 nd f1 f2 f3 f4 f5
    by (intro conjI)
qed

theorem publish_same_name_same_content_witness:
  "canonicalRouteFileStemV4 (schoolName demoPublished) (stops demoPublished) = ''GUILFORD PARK (AM)'' \<and>
   jsonFiles (publishOne demoEnv demoItem demoPublished emptyRun) (''021'', ''GUILFORD PARK (AM).json'') =
     Some (artifactOf demoItem ''T0'' demoPublished) \<and>
   jsonFiles (publishOne demoEnv demoItem demoPublished (publishOne demoEnv demoItem demoPublished emptyRun))
       (''021'', ''GUILFORD PARK (AM).json'') =
     Some (artifactOf demoItem ''T2'' demoPublished) \<and>
   artifactOf demoItem ''T0'' demoPublished =
     (artifactOf demoItem ''T2'' demoPublished)
       \<lparr>meta := (meta (artifactOf demoItem ''T2'' demoPublished))\<lparr>generatedAt := ''T0''\<rparr>\<rparr> \<and>
   canonicalizeSchoolV4 ''Guilford Park'' \<noteq> [] \<and>
   \<not> isSpace (hd (canonicalizeSchoolV4 ''Guilford Park'')) \<and>
   \<not> isSpace (last (canonicalizeSchoolV4 ''Guilford Park'')) \<and>
   CHR ''G'' \<in> set (canonicalizeSchoolV4 ''Guilford Park'') \<and> CHR ''G'' \<notin> set lowerLetters"
proof -
  have n: "canonicalRouteFileStemV4 (schoolName demoPublished) (stops demoPublished) = ''GUILFORD PARK (AM)''"
    by code_simp
  have b: "busNumber demoPublished = ''021''"
    by (simp add: demoPublished_def)
  have c0: "clock demoEnv (length (calls emptyRun)) = ''T0''"
    by code_simp
  have c2: "clock demoEnv (length (calls (publishOne demoEnv demoItem demoPublished emptyRun))) = ''T2''"
    by code_simp
  have cs: "canonicalizeSchoolV4 ''Guilford Park'' = ''GUILFORD PARK''"
    by code_simp
  note t = publish_same_name_same_content [of demoEnv demoItem demoPublished emptyRun "''T0''" "''T2''"
      "''Guilford Park''"]
  have j1: "jsonFiles (publishOne demoEnv demoItem demoPublished emptyRun) (''021'', ''GUILFORD PARK (AM).json'') =
     Some (artifactOf demoItem ''T0'' demoPublished)"
    using t unfolding n b c0 by simp
  have j2: "jsonFiles (publishOne demoEnv demoItem demoPublished (publishOne demoEnv demoItem demoPublished emptyRun))
       (''021'', ''GUILFORD PARK (AM).json'') = Some (artifactOf demoItem ''T2'' demoPublished)"
    using t unfolding n b c2 by simp
  have a: "artifactOf demoItem ''T0'' demoPublished =
     (artifactOf demoItem ''T2'' demoPublished)
       \<lparr>meta := (meta (artifactOf demoItem ''T2'' demoPublished))\<lparr>generatedAt := ''T0''\<rparr>\<rparr>"
    using t by blast
  have ne: "canonicalizeSchoolV4 ''Guilford Park'' \<noteq> []"
    unfolding cs by simp
  have ends: "\<not> isSpace (hd (canonicalizeSchoolV4 ''Guilford Park'')) \<and>
     \<not> isSpace (last (canonicalizeSchoolV4 ''Guilford Park''))"
    using t ne by blast
  have g: "CHR ''G'' \<in> set (canonicalizeSchoolV4 ''Guilford Park'')"
    unfolding cs by simp
  have gl: "CHR ''G'' \<notin> set lowerLetters"
    using t g by blast
  show ?thesis using n j1 j2 a ne ends g gl by blast
qed

section \<open>The geocoding cache over a whole batch\<close>

lemma noGeo_traces:
  "geocodeCalls ext = [] \<Longrightarrow> matchedKeys env n ext = [] \<and> noRepeatAfterMatch env n seen ext"
proof (induction ext arbitrary: n)
  case Nil
  show ?case by simp
next
  case (Cons c cs)
  then show ?case by (cases c) auto
qed

lemma geocodeCalls_append: "geocodeCalls (xs @ ys) = geocodeCalls xs @ geocodeCalls ys"
proof (induction xs)
  case Nil
  show ?case by simp
next
  case (Cons c cs)
  then show ?case by (cases c) auto
qed

lemma retryLoop_noGeo:
  assumes "\<And>t. \<exists>e. snd (fn t) = t @ e \<and> geocodeCalls e = []"
  shows "\<exists>ext. snd (retryLoop env fn b e0 i k tr) = tr @ ext \<and> geocodeCalls ext = []"
proof (induction k arbitrary: e0 i tr)
  case 0
  show ?case by simp
next
  case (Suc k)
  obtain r t1 where f: "fn tr = (r, t1)" by (cases "fn tr")
  obtain e1 where e1: "t1 = tr @ e1" "geocodeCalls e1 = []"
    using assms [of tr] f by auto
  show ?case
  proof (cases r)
    case (Inr v)
    then show ?thesis using f e1 by simp
  next
    case (Inl e')
    show ?thesis
    proof (cases "k = 0")
      case True
      then show ?thesis using f Inl e1 by simp
    next
      case False
      define t2 where "t2 = t1 @ [Sleep (b * 2 ^ i + jitter env (length t1))]"
      obtain ext where ext: "snd (retryLoop env fn b e' (Suc i) k t2) = t2 @ ext" "geocodeCalls ext = []"
        using Suc.IH [of e' "Suc i" t2] by blast
      have "snd (retryLoop env fn b e0 i (Suc k) tr) = tr @ (e1 @ [Sleep (b * 2 ^ i + jitter env (length t1))] @ ext)"
        using f Inl False ext(1) e1(1) by (simp add: t2_def)
      moreover have "geocodeCalls (e1 @ [Sleep (b * 2 ^ i + jitter env (length t1))] @ ext) = []"
        using e1(2) ext(2) by (simp add: geocodeCalls_append)
      ultimately show ?thesis by blast
    qed
  qed
qed

lemma ocr_noGeo: "\<exists>ext. snd (ocrPdfToTextV4 env fid tr) = tr @ ext \<and> geocodeCalls ext = []"
  unfolding ocrPdfToTextV4_def withRetryV4_def
  by (rule retryLoop_noGeo) simp

lemma extractSpecEd_noGeo:
  "\<exists>ext. snd (extractSpecEdRoutesV4 env ocr fs fb tr) = tr @ ext \<and> geocodeCalls ext = []"
proof -
  obtain ext where e: "snd (withRetryV4 env (\<lambda>t. (fetch env (length t) ocr, t @ [Fetch ocr])) 3 1000 tr) = tr @ ext"
    "geocodeCalls ext = []"
    unfolding withRetryV4_def
    using retryLoop_noGeo [of "\<lambda>t. (fetch env (length t) ocr, t @ [Fetch ocr])" env 1000 NullError 0 3 tr]
    by auto
  have "snd (extractSpecEdRoutesV4 env ocr fs fb tr) = tr \<or>
        snd (extractSpecEdRoutesV4 env ocr fs fb tr) =
          snd (withRetryV4 env (\<lambda>t. (fetch env (length t) ocr, t @ [Fetch ocr])) 3 1000 tr)"
    by (auto simp add: extractSpecEdRoutesV4_def split: prod.splits sum.splits parsed.splits)
  then show ?thesis using e by auto
qed

lemma extractRoutes_noGeo:
  "\<exists>ext. snd (extractRoutes env item run) = run\<lparr>calls := calls run @ ext\<rparr> \<and> geocodeCalls ext = []"
proof (cases "routeType item = ''REGED_DOC''")
  case True
  then have "snd (extractRoutes env item run) = run\<lparr>calls := calls run @ [DocsGet (fileId item)]\<rparr>"
    by (simp add: extractRoutes_def)
  moreover have "geocodeCalls [DocsGet (fileId item)] = []"
    by simp
  ultimately show ?thesis by blast
next
  case nr: False
  show ?thesis
  proof (cases "routeType item = ''SPECED_PDF''")
    case False
    then have "snd (extractRoutes env item run) = run\<lparr>calls := calls run @ []\<rparr>"
      using nr by (simp add: extractRoutes_def)
    then show ?thesis by (metis geocodeCalls.simps(1))
  next
    case True
    obtain r tr where o: "ocrPdfToTextV4 env (fileId item) (calls run) = (r, tr)"
      by (cases "ocrPdfToTextV4 env (fileId item) (calls run)")
    obtain e1 where e1: "tr = calls run @ e1" "geocodeCalls e1 = []"
      using ocr_noGeo [of env "fileId item" "calls run"] o by auto
    show ?thesis
    proof (cases r)
      case (Inl e)
      then show ?thesis using nr True o e1 by (auto simp add: extractRoutes_def)
    next
      case (Inr ocr)
      define fs where "fs = (if schoolNameHint item \<noteq> [] then schoolNameHint item
                      else stripExtV4 (fileName item))"
      obtain r2 t2 where x: "extractSpecEdRoutesV4 env ocr fs (busNumberHint item) tr = (r2, t2)"
        by (cases "extractSpecEdRoutesV4 env ocr fs (busNumberHint item) tr")
      obtain e2 where e2: "t2 = tr @ e2" "geocodeCalls e2 = []"
        using extractSpecEd_noGeo [of env ocr fs "busNumberHint item" tr] x by auto
      have "extractRoutes env item run = (r2, run\<lparr>calls := t2\<rparr>)"
        using nr True o Inr x unfolding extractRoutes_def fs_def [symmetric] by simp
      then have "snd (extractRoutes env item run) = run\<lparr>calls := calls run @ (e1 @ e2)\<rparr>"
        using e2(1) e1(1) by simp
      moreover have "geocodeCalls (e1 @ e2) = []"
        using e1(2) e2(2) by (simp add: geocodeCalls_append)
      ultimately show ?thesis by blast
    qed
  qed
qed

lemma geoInv_extend:
  assumes "geoInv env run" "geocodeCalls ext = []" "geocodeCache (pstate run') = geocodeCache (pstate run)"
    "calls run' = calls run @ ext"
  shows "geoInv env run'"
  using assms noGeo_traces [OF assms(2), of env "length (calls run)"]
  by (simp add: geoInv_def matchedCached_def matchedKeys_append noRepeat_append)

lemma publishOne_frame:
  "pstate (publishOne env item route run) = pstate run \<and>
   (\<exists>ext. calls (publishOne env item route run) = calls run @ ext \<and> geocodeCalls ext = [])"
proof -
  define dir where "dir = (if busNumber route = [] then ''N-A'' else busNumber route)"
  define nm where "nm = canonicalRouteFileStemV4 (schoolName route) (stops route)"
  have "calls (publishOne env item route run) = calls run @ [PutJson dir (nm @ ''.json''), PutSheet dir nm]"
    by (simp add: publishOne_def Let_def upsertJsonV4_def upsertSheetV4_def addLog_def
        WRITE_JSON_V4_def WRITE_SHEETS_V4_def dir_def nm_def)
  moreover have "geocodeCalls [PutJson dir (nm @ ''.json''), PutSheet dir nm] = []"
    by simp
  moreover have "pstate (publishOne env item route run) = pstate run"
    by (simp add: publishOne_def Let_def upsertJsonV4_def upsertSheetV4_def addLog_def
        WRITE_JSON_V4_def WRITE_SHEETS_V4_def)
  ultimately show ?thesis by blast
qed

lemma publishOne_inv: "geoInv env run \<Longrightarrow> geoInv env (publishOne env item route run)"
  using publishOne_frame [of env item route run] geoInv_extend [of env run _ "publishOne env item route run"]
  by auto

lemma publishAll_inv:
  "geoInv env run \<Longrightarrow> geoInv env (foldl (\<lambda>r route. publishOne env item route r) run rs)"
proof (induction rs arbitrary: run)
  case Nil
  then show ?case by simp
next
  case (Cons r rs)
  show ?case using Cons.IH [OF publishOne_inv [OF Cons.prems]] by simp
qed

lemma publishAll_cache:
  "geocodeCache (pstate (foldl (\<lambda>r route. publishOne env item route r) run rs)) = geocodeCache (pstate run)"
proof (induction rs arbitrary: run)
  case Nil
  show ?case by simp
next
  case (Cons r rs)
  show ?case using Cons.IH [of "publishOne env item r run"] publishOne_frame [of env item r run] by simp
qed

lemma addLog_inv: "geoInv env run \<Longrightarrow> geoInv env (addLog line run)"
  by (simp add: geoInv_def matchedCached_def addLog_def)

lemma addLog_pstate: "pstate (addLog line run) = pstate run"
  by (simp add: addLog_def)

lemma markProcessed_inv: "geoInv env run \<Longrightarrow> geoInv env (markProcessed item run)"
  by (simp add: geoInv_def matchedCached_def markProcessed_def)

lemma publishRoutesV4_inv:
  "cacheGrows (geocodeCache (pstate run)) (geocodeCache (pstate (snd (publishRoutesV4 env routes item run)))) \<and>
   (geoInv env run \<longrightarrow> geoInv env (snd (publishRoutesV4 env routes item run)))"
proof (cases "routes = []")
  case True
  then show ?thesis by (simp add: publishRoutesV4_def addLog_inv cacheGrows_refl addLog_pstate)
next
  case False
  define cl where "cl = filter (\<lambda>r. stops r \<noteq> [])
                (map (\<lambda>r. cleanRouteV4 r (schoolNameHint item) (busNumberHint item)) routes)"
  show ?thesis
  proof (cases "cl = []")
    case True
    then show ?thesis using False
      by (simp add: publishRoutesV4_def addLog_inv cacheGrows_refl addLog_pstate cl_def)
  next
    case ne: False
    obtain r run1 where g: "geocodeStopsV4 env cl run = (r, run1)"
      by (cases "geocodeStopsV4 env cl run")
    note i = geocodeStopsV4_inv [OF g]
    show ?thesis
    proof (cases r)
      case (Inl e)
      then show ?thesis using False ne g i
        by (simp add: publishRoutesV4_def cl_def [symmetric] geoInv_def)
    next
      case (Inr geocoded)
      have "snd (publishRoutesV4 env routes item run) =
            foldl (\<lambda>r route. publishOne env item route r) run1 geocoded"
        using False ne g Inr by (simp add: publishRoutesV4_def cl_def [symmetric])
      then show ?thesis using i publishAll_inv [of env run1 item geocoded] publishAll_cache [of env item run1 geocoded]
        by (simp add: geoInv_def)
    qed
  qed
qed

lemma processItem_inv:
  "cacheGrows (geocodeCache (pstate run)) (geocodeCache (pstate (processItem env item run))) \<and>
   (geoInv env run \<longrightarrow> geoInv env (processItem env item run))"
proof (cases "fileId item = [] \<or> routeType item = [] \<or> unchanged (pstate run) item")
  case True
  then show ?thesis
    by (auto simp add: processItem_def cacheGrows_refl addLog_inv addLog_pstate)
next
  case False
  obtain r run1 where e: "extractRoutes env item run = (r, run1)"
    by (cases "extractRoutes env item run")
  obtain ext where ext: "run1 = run\<lparr>calls := calls run @ ext\<rparr>" "geocodeCalls ext = []"
    using extractRoutes_noGeo [of env item run] e by auto
  have c1: "geocodeCache (pstate run1) = geocodeCache (pstate run)" using ext(1) by simp
  have i1: "geoInv env run \<Longrightarrow> geoInv env run1"
    using geoInv_extend [of env run ext run1] ext by simp
  show ?thesis
  proof (cases r)
    case (Inl err)
    then have "processItem env item run =
        addLog (''[ERROR] '' @ routeType item @ '' '' @ fileName item @ '': '' @ errTextV4 err) run1"
      using False e by (simp add: processItem_def)
    then show ?thesis using c1 i1 addLog_inv by (simp add: cacheGrows_refl addLog_pstate)
  next
    case (Inr routes)
    obtain r2 run2 where p: "publishRoutesV4 env routes item run1 = (r2, run2)"
      by (cases "publishRoutesV4 env routes item run1")
    have i2: "cacheGrows (geocodeCache (pstate run)) (geocodeCache (pstate run2)) \<and>
              (geoInv env run \<longrightarrow> geoInv env run2)"
      using publishRoutesV4_inv [of run1 env routes item] p c1 i1 by simp
    show ?thesis
    proof (cases r2)
      case None
      then have "processItem env item run = markProcessed item run2"
        using False e Inr p by (simp add: processItem_def)
      then show ?thesis using i2 markProcessed_inv by (simp add: markProcessed_def)
    next
      case (Some err)
      then have "processItem env item run =
        addLog (''[ERROR] '' @ routeType item @ '' '' @ fileName item @ '': '' @ errTextV4 err) run2"
        using False e Inr p by (simp add: processItem_def)
      then show ?thesis using i2 addLog_inv by (simp add: addLog_pstate)
    qed
  qed
qed

lemma batchLoop_inv:
  "cacheGrows (geocodeCache (pstate run)) (geocodeCache (pstate (batchLoop env k run))) \<and>
   (geoInv env run \<longrightarrow> geoInv env (batchLoop env k run))"
proof (induction k arbitrary: run)
  case 0
  show ?case by (simp add: cacheGrows_refl)
next
  case (Suc k)
  define run1 where "run1 = processItem env (queue (pstate run) ! pos (pstate run)) run"
  define run2 where "run2 = run1\<lparr>pstate := (pstate run1)\<lparr>pos := Suc (pos (pstate run1))\<rparr>\<rparr>"
  have i1: "cacheGrows (geocodeCache (pstate run)) (geocodeCache (pstate run1)) \<and>
            (geoInv env run \<longrightarrow> geoInv env run1)"
    unfolding run1_def by (rule processItem_inv)
  have c2: "geocodeCache (pstate run2) = geocodeCache (pstate run1)" by (simp add: run2_def)
  have i2: "geoInv env run1 \<Longrightarrow> geoInv env run2"
    by (simp add: geoInv_def matchedCached_def run2_def)
  have b: "batchLoop env (Suc k) run = batchLoop env k run2"
    by (simp add: run1_def run2_def Let_def)
  show ?case unfolding b using Suc.IH [of run2] i1 i2 c2 cacheGrows_trans by metis
qed

text \<open>
  Claim C3 as stated fails in its last part: a query for which the geocoder finds no
  match is not written to the cache, so a cleaned route that names such a place at two
  times sends the same query to the geocoder twice within one run.
\<close>

theorem repeated_unmatched_query_counterexample:
  "cleanRouteV4 twiceRoute [] [] = twiceRoute \<and>
   geocodeCalls (calls (snd (geocodeStopsV4 demoEnv [twiceRoute] emptyRun))) =
     [''Nowhere Ln, Howard County, Maryland'', ''Nowhere Ln, Howard County, Maryland'']"
  by code_simp

text \<open>
  Claim C3, amended.  Geocoding a list of routes, and a whole batch of the loop, only
  add to the cache: every key stays, an entry with numeric coordinates is never
  changed, and an entry that changes is written with coordinates.  If every query
  that the geocoder has matched so far in the run has coordinates in the cache and no
  request of the trace repeats a matched query, as at the start of a run, then the
  same holds after the routes and after the batch: a query that was answered with a
  match is never sent to the geocoder again within the run.  A stop whose lower-cased
  query has numeric coordinates in the cache gets these coordinates and leaves the
  run as it is, so no call is made for it.  Nothing is promised for a query without
  a match.
\<close>

theorem geocode_cache_grows_and_hits:
  "(geocodeStopsV4 env routes run = (res, run') \<longrightarrow>
      cacheGrows (geocodeCache (pstate run)) (geocodeCache (pstate run')) \<and>
      (geoInv env run \<longrightarrow> geoInv env run')) \<and>
   cacheGrows (geocodeCache (pstate run)) (geocodeCache (pstate (processBatch env run))) \<and>
   (geoInv env run \<longrightarrow> geoInv env (processBatch env run)) \<and>
   (cacheHit (geocodeCache (pstate run)) (toLowerCase (geocodeQuery stop)) = Some (a, b) \<longrightarrow>
      geocodeStop env stop run = (Inr (stop\<lparr>latitude := Some a, longitude := Some b\<rparr>), run))"
  using geocodeStopsV4_inv [of env routes run res run'] geocodeStop_hit [of run stop a b env]
    batchLoop_inv [of run env]
  unfolding processBatch_def geoInv_def
  by blast

theorem geocode_cache_grows_and_hits_witness:
  "geoInv envScenario queuedRun \<and>
   geoInv envScenario (processBatch envScenario queuedRun) \<and>
   cacheGrows (geocodeCache (pstate queuedRun)) (geocodeCache (pstate (processBatch envScenario queuedRun))) \<and>
   geocodeCalls (calls (processBatch envScenario queuedRun)) = [''123 Main St, Howard County, Maryland''] \<and>
   geoInv demoEnvFound emptyRun \<and> geoInv demoEnvFound foundRun \<and>
   geocodeCalls (calls foundRun) = [''Nowhere Ln, Howard County, Maryland''] \<and>
   cacheHit (geocodeCache (pstate foundRun)) (toLowerCase (geocodeQuery (mkStop ''7:10 AM'' ''NOWHERE LN'')))
     = Some (39.12345, -76.54321) \<and>
   geocodeStop demoEnv (mkStop ''7:10 AM'' ''NOWHERE LN'') foundRun =
     (Inr ((mkStop ''7:10 AM'' ''NOWHERE LN'')\<lparr>latitude := Some 39.12345, longitude := Some (-76.54321)\<rparr>),
      foundRun)"
proof -
  have h0: "geoInv envScenario queuedRun"
    by code_simp
  have h1: "geoInv demoEnvFound emptyRun"
    by code_simp
  have e: "geocodeStopsV4 demoEnvFound [twiceRoute] emptyRun =
           (fst (geocodeStopsV4 demoEnvFound [twiceRoute] emptyRun), foundRun)"
    by (simp add: foundRun_def)
  have c: "geocodeCalls (calls foundRun) = [''Nowhere Ln, Howard County, Maryland'']"
    by code_simp
  have cb: "geocodeCalls (calls (processBatch envScenario queuedRun)) = [''123 Main St, Howard County, Maryland'']"
    by code_simp
  have h3: "cacheHit (geocodeCache (pstate foundRun))
              (toLowerCase (geocodeQuery (mkStop ''7:10 AM'' ''NOWHERE LN''))) = Some (39.12345, -76.54321)"
    by code_simp
  from geocode_cache_grows_and_hits [of envScenario "[]" queuedRun] h0
  have b1: "geoInv envScenario (processBatch envScenario queuedRun) \<and>
            cacheGrows (geocodeCache (pstate queuedRun)) (geocodeCache (pstate (processBatch envScenario queuedRun)))"
    by blast
  from geocode_cache_grows_and_hits [of demoEnvFound "[twiceRoute]" emptyRun _ foundRun] e h1
  have a: "geoInv demoEnvFound foundRun"
    by blast
  from geocode_cache_grows_and_hits [of demoEnv "[]" foundRun _ _ "mkStop ''7:10 AM'' ''NOWHERE LN''"] h3
  have b: "geocodeStop demoEnv (mkStop ''7:10 AM'' ''NOWHERE LN'') foundRun =
     (Inr ((mkStop ''7:10 AM'' ''NOWHERE LN'')\<lparr>latitude := Some 39.12345, longitude := Some (-76.54321)\<rparr>),
      foundRun)"
    by blast
  show ?thesis using h0 h1 a b b1 c cb h3 by blast
qed

section \<open>Properties of the state loader\<close>

lemma geocodeStop_first_call:
  assumes "cacheHit (geocodeCache (pstate run)) (toLowerCase (geocodeQuery stop)) = None"
  shows "prefix (calls run @ [Geocode (geocodeQuery stop)]) (calls (snd (geocodeStop env stop run)))"
proof -
  obtain r tr where w: "withRetryV4 env
      (\<lambda>t. (geocode env (length t) (geocodeQuery stop), t @ [Geocode (geocodeQuery stop)])) 3 500 (calls run) = (r, tr)"
    by (cases "withRetryV4 env
      (\<lambda>t. (geocode env (length t) (geocodeQuery stop), t @ [Geocode (geocodeQuery stop)])) 3 500 (calls run)")
  have "prefix (calls run @ [Geocode (geocodeQuery stop)])
     (snd (withRetryV4 env (\<lambda>t. (geocode env (length t) (geocodeQuery stop), t @ [Geocode (geocodeQuery stop)])) 3 500 (calls run)))"
    unfolding withRetryV4_def numeral_3_eq_3 by (rule retryLoop_first_call) simp
  then have p: "prefix (calls run @ [Geocode (geocodeQuery stop)]) tr"
    using w by simp
  then have p': "prefix (calls run @ [Geocode (geocodeQuery stop)]) (tr @ [Sleep 150])"
    by (meson prefix_order.trans prefixI)
  show ?thesis
  proof (cases r)
    case (Inl e)
    then show ?thesis using assms w p by (simp add: geocodeStop_def Let_def)
  next
    case (Inr found)
    then show ?thesis using assms w p'
      by (cases found) (auto simp add: geocodeStop_def Let_def putCache_def)
  qed
qed

text \<open>
  Claim C9 as stated fails: loading the state is not total.  The folder lookup, the
  search by name and the test \<open>hasNext\<close> stand in front of the \<open>try\<close> block, so
  an error of one of them leaves \<open>loadStateV4\<close>.  And an empty state does not make
  every item be extracted again: an item whose time stamp is 0 passes the test
  \<open>unchanged\<close> on the empty state and is skipped.
\<close>

theorem load_state_lookup_error_counterexample:
  "loadStateV4 demoParse demoNumber (LookupFails (Err ''Service error: Drive'')) =
     Inl (Err ''Service error: Drive'') \<and>
   processed (pstate emptyRun) (fileId zeroItem) = None \<and>
   unchanged (pstate emptyRun) zeroItem"
  by code_simp

text \<open>
  Claim C9, amended.  An error of the lookup of the state document leaves
  \<open>loadStateV4\<close>; in every other case it returns a state.  When no document of
  that name exists, when the document cannot be read, when its content is not JSON,
  and when its content is \<open>null\<close>, the state returned is the empty initial state:
  empty queue, position 0, no processed fingerprint and no cached coordinates under
  any key.  For a state without a fingerprint of an item, the item is not skipped if
  its time stamp is not 0, and if it is a document or a scanned sheet its source is
  fetched again; for a state whose cache has no coordinates for the query of a stop,
  the geocoder is asked for that stop.
\<close>

theorem load_state_empty_on_bad_document:
  "loadStateV4 parse toNumber (LookupFails e) = Inl e \<and>
   ((\<forall>e'. doc \<noteq> LookupFails e') \<longrightarrow> (\<exists>st. loadStateV4 parse toNumber doc = Inr st)) \<and>
   loadStateV4 parse toNumber NoStateFile = Inr emptyState \<and>
   loadStateV4 parse toNumber Unreadable = Inr emptyState \<and>
   (parse text = None \<longrightarrow> loadStateV4 parse toNumber (Content text) = Inr emptyState) \<and>
   (parse text = Some JNull \<longrightarrow> loadStateV4 parse toNumber (Content text) = Inr emptyState) \<and>
   stQueue emptyState = [] \<and> stPos emptyState = Some 0 \<and>
   getProp (stProcessed emptyState) k = None \<and> getProp (stGeocodeCache emptyState) k = None \<and>
   (fileId item \<noteq> [] \<and> routeType item \<noteq> [] \<and> processed (pstate run) (fileId item) = None \<and>
    updatedMs item \<noteq> 0 \<longrightarrow>
      \<not> unchanged (pstate run) item \<and>
      processItem env item run \<noteq>
        addLog (''[SKIP] '' @ routeType item @ '' '' @ fileName item @ '': unchanged'') run) \<and>
   (fileId item \<noteq> [] \<and> (routeType item = ''REGED_DOC'' \<or> routeType item = ''SPECED_PDF'') \<and>
    processed (pstate run) (fileId item) = None \<and> updatedMs item \<noteq> 0 \<longrightarrow>
      prefix (calls run @ [if routeType item = ''REGED_DOC'' then DocsGet (fileId item)
                           else OcrCopy (fileId item)])
        (calls (processItem env item run))) \<and>
   (geocodeCache (pstate run) (toLowerCase (geocodeQuery stop)) = None \<longrightarrow>
      prefix (calls run @ [Geocode (geocodeQuery stop)]) (calls (snd (geocodeStop env stop run))))"
proof -
  have lookup: "loadStateV4 parse toNumber (LookupFails e) = Inl e"
    by (simp add: loadStateV4_def)
  have returns: "(\<forall>e'. doc \<noteq> LookupFails e') \<longrightarrow> (\<exists>st. loadStateV4 parse toNumber doc = Inr st)"
  proof (cases doc)
    case (LookupFails e')
    then show ?thesis by simp
  next
    case NoStateFile
    then show ?thesis by (simp add: loadStateV4_def)
  next
    case Unreadable
    then show ?thesis by (simp add: loadStateV4_def)
  next
    case (Content body)
    show ?thesis
    proof (cases "parse body")
      case None
      then show ?thesis using Content by (simp add: loadStateV4_def)
    next
      case (Some parsed)
      then show ?thesis using Content by (simp add: loadStateV4_def)
    qed
  qed
  have absent: "loadStateV4 parse toNumber NoStateFile = Inr emptyState"
    by (simp add: loadStateV4_def)
  have unreadable: "loadStateV4 parse toNumber Unreadable = Inr emptyState"
    by (simp add: loadStateV4_def)
  have malformed: "parse text = None \<longrightarrow> loadStateV4 parse toNumber (Content text) = Inr emptyState"
    by (simp add: loadStateV4_def)
  have null: "parse text = Some JNull \<longrightarrow> loadStateV4 parse toNumber (Content text) = Inr emptyState"
    by (simp add: loadStateV4_def)
  have fields: "stQueue emptyState = [] \<and> stPos emptyState = Some 0 \<and>
      getProp (stProcessed emptyState) k = None \<and> getProp (stGeocodeCache emptyState) k = None"
    by (simp add: emptyState_def)
  have fresh: "\<not> unchanged (pstate run) item"
    if "processed (pstate run) (fileId item) = None" "updatedMs item \<noteq> 0"
    using that unchanged_iff [of item "pstate run"] by simp
  have logs_differ: "processItem env item run \<noteq>
        addLog (''[SKIP] '' @ routeType item @ '' '' @ fileName item @ '': unchanged'') run"
    if a: "fileId item \<noteq> []" "routeType item \<noteq> []" "processed (pstate run) (fileId item) = None"
      "updatedMs item \<noteq> 0"
  proof -
    have nu: "\<not> unchanged (pstate run) item" using fresh a by simp
    obtain r run1 where x: "extractRoutes env item run = (r, run1)"
      by (cases "extractRoutes env item run")
    obtain ext where ex: "snd (extractRoutes env item run) = run\<lparr>calls := calls run @ ext\<rparr>"
      using extractRoutes_noGeo [of env item run] by blast
    have r1: "logs run1 = logs run \<and> pstate run1 = pstate run" using x ex by simp
    show ?thesis
    proof (cases r)
      case (Inl err)
      have "logs (processItem env item run) =
            logs run @ [''[ERROR] '' @ routeType item @ '' '' @ fileName item @ '': '' @ errTextV4 err]"
        using processItem_thrown [of item run env err run1] a nu x Inl by simp
      then show ?thesis by (auto simp add: addLog_def)
    next
      case (Inr routes)
      obtain res run2 where pb: "publishRoutesV4 env routes item run1 = (res, run2)"
        by (cases "publishRoutesV4 env routes item run1")
      show ?thesis
      proof (cases res)
        case None
        have "processItem env item run = markProcessed item run2"
          using a nu x Inr pb None by (simp add: processItem_def)
        then have "processed (pstate (processItem env item run)) (fileId item) = Some (storedStamp item)"
          by (simp add: markProcessed_processed)
        then show ?thesis using a(3) by (auto simp add: addLog_pstate)
      next
        case (Some err)
        have pi: "processItem env item run =
            addLog (''[ERROR] '' @ routeType item @ '' '' @ fileName item @ '': '' @ errTextV4 err) run2"
          using a nu x Inr pb Some by (simp add: processItem_def)
        have "last (logs (processItem env item run)) =
              ''[ERROR] '' @ routeType item @ '' '' @ fileName item @ '': '' @ errTextV4 err"
          unfolding pi by (simp add: addLog_def)
        moreover have "last (logs (addLog (''[SKIP] '' @ routeType item @ '' '' @ fileName item @ '': unchanged'') run)) =
              ''[SKIP] '' @ routeType item @ '' '' @ fileName item @ '': unchanged''"
          by (simp add: addLog_def)
        ultimately show ?thesis by auto
      qed
    qed
  qed
  have again: "prefix (calls run @ [if routeType item = ''REGED_DOC'' then DocsGet (fileId item)
                           else OcrCopy (fileId item)])
        (calls (processItem env item run))"
    if "fileId item \<noteq> []" "routeType item = ''REGED_DOC'' \<or> routeType item = ''SPECED_PDF''"
      "processed (pstate run) (fileId item) = None" "updatedMs item \<noteq> 0"
    using processItem_first_call [of item run env] that fresh by simp
  have asked: "prefix (calls run @ [Geocode (geocodeQuery stop)]) (calls (snd (geocodeStop env stop run)))"
    if "geocodeCache (pstate run) (toLowerCase (geocodeQuery stop)) = None"
    using geocodeStop_first_call [of run stop env] that by (simp add: cacheHit_def)
  show ?thesis
    using lookup returns absent unreadable malformed null fields fresh logs_differ again asked
    by blast
qed

theorem load_state_empty_on_bad_document_witness:
  "(\<exists>st. loadStateV4 demoParse demoNumber (Content ''[]'') = Inr st) \<and>
   loadStateV4 demoParse demoNumber (Content ''[]'') = Inr emptyState \<and>
   demoParse ''{queue: oops'' = None \<and>
   loadStateV4 demoParse demoNumber (Content ''{queue: oops'') = Inr emptyState \<and>
   demoParse ''null'' = Some JNull \<and>
   loadStateV4 demoParse demoNumber (Content ''null'') = Inr emptyState \<and>
   processed (pstate emptyRun) (fileId demoItem) = None \<and>
   \<not> unchanged (pstate emptyRun) demoItem \<and>
   prefix [OcrCopy ''file-1''] (calls (processItem demoEnv demoItem emptyRun)) \<and>
   prefix [Geocode ''Nowhere Ln, Howard County, Maryland'']
     (calls (snd (geocodeStop demoEnv (mkStop ''6:42 AM'' ''Nowhere Ln'') emptyRun)))"
proof -
  have a: "demoParse ''{queue: oops'' = None"
    by (simp add: demoParse_def)
  have b: "demoParse ''null'' = Some JNull"
    by (simp add: demoParse_def)
  have c: "loadStateV4 demoParse demoNumber (Content ''[]'') = Inr emptyState"
    by (simp add: loadStateV4_def demoParse_def demoNumber_def orElse_def emptyState_def)
  have d: "fileId demoItem = ''file-1'' \<and> routeType demoItem = ''SPECED_PDF'' \<and>
           updatedMs demoItem \<noteq> 0 \<and> calls emptyRun = []"
    by (simp add: demoItem_def emptyRun_def)
  have p: "processed (pstate emptyRun) key = None" for key
    by (simp add: emptyRun_def)
  have q: "geocodeQuery (mkStop ''6:42 AM'' ''Nowhere Ln'') = ''Nowhere Ln, Howard County, Maryland''"
    by code_simp
  have g: "geocodeCache (pstate emptyRun)
             (toLowerCase (geocodeQuery (mkStop ''6:42 AM'' ''Nowhere Ln''))) = None"
    by (simp add: emptyRun_def)
  have w1: "loadStateV4 demoParse demoNumber (Content ''{queue: oops'') = Inr emptyState \<and>
            loadStateV4 demoParse demoNumber (Content ''null'') = Inr emptyState"
    using load_state_empty_on_bad_document [of demoParse demoNumber _ _ "''{queue: oops''"]
      load_state_empty_on_bad_document [of demoParse demoNumber _ _ "''null''"] a b
    by simp
  have w0: "\<exists>st. loadStateV4 demoParse demoNumber (Content ''[]'') = Inr st"
    using load_state_empty_on_bad_document [of demoParse demoNumber _ "Content ''[]''"]
    by simp
  have w2: "\<not> unchanged (pstate emptyRun) demoItem \<and>
            prefix [OcrCopy ''file-1''] (calls (processItem demoEnv demoItem emptyRun))"
    using load_state_empty_on_bad_document [of _ _ _ _ _ _ demoItem emptyRun demoEnv] d p
    by simp
  have w3: "prefix [Geocode ''Nowhere Ln, Howard County, Maryland'']
     (calls (snd (geocodeStop demoEnv (mkStop ''6:42 AM'' ''Nowhere Ln'') emptyRun)))"
    using load_state_empty_on_bad_document [of _ _ _ _ _ _ _ emptyRun demoEnv "mkStop ''6:42 AM'' ''Nowhere Ln''"] g q d
    by simp
  show ?thesis using a b c p w0 w1 w2 w3 by simp
qed

end
